theory Spec2Isabelle
  imports Main
begin

section \<open>Go library functions used by load\_module.go\<close>

text \<open>
  Go strings are byte sequences; they are modelled as \<open>string\<close> (a list of 8-bit
  characters). The library functions below are the ones \<open>load_module.go\<close> calls:
  \<open>strings.HasPrefix\<close>, \<open>strings.TrimPrefix\<close>, \<open>strings.Split\<close> with a
  one-byte separator, and \<open>regexp.ReplaceAllString\<close> for the one pattern the file
  compiles.
\<close>

definition HasPrefix :: "string \<Rightarrow> string \<Rightarrow> bool" where
  "HasPrefix s p = (take (length p) s = p)"

definition TrimPrefix :: "string \<Rightarrow> string \<Rightarrow> string" where
  "TrimPrefix s p = (if HasPrefix s p then drop (length p) s else s)"

text \<open>\<open>strings.Split(s, sep)\<close> for a separator of one byte: the pieces between the
  separators, one more piece than there are separators (so the empty string gives one
  empty piece).\<close>

fun Split :: "string \<Rightarrow> char \<Rightarrow> string list" where
  "Split [] sep = [[]]"
| "Split (c # cs) sep =
     (if c = sep then [] # Split cs sep
      else (case Split cs sep of
              [] \<Rightarrow> [[c]]
            | p # ps \<Rightarrow> (c # p) # ps))"

subsection \<open>The index pattern\<close>

text \<open>
  \<open>indexRegExp\<close> is \<open>regexp.MustCompile(`\[.+?\]`)\<close>: an opening bracket, one or
  more characters matched lazily, a closing bracket. In Go's syntax \<open>.\<close> matches any
  character but the newline. A match that starts at an opening bracket therefore takes
  the next character whatever it is (unless it is a newline), and then runs to the first
  closing bracket that comes before any newline.

  \<open>find_close\<close> scans for that closing bracket and returns the text after it;
  \<open>match_at\<close> is the match anchored at the head of its argument, returning the text
  that follows the match.
\<close>

definition newline :: char where
  "newline = CHR 0x0A"

fun find_close :: "string \<Rightarrow> string option" where
  "find_close [] = None"
| "find_close (c # cs) =
     (if c = CHR '']'' then Some cs
      else if c = newline then None
      else find_close cs)"

fun match_at :: "string \<Rightarrow> string option" where
  "match_at (a # b # cs) =
     (if a = CHR ''['' \<and> b \<noteq> newline then find_close cs else None)"
| "match_at [a] = None"
| "match_at [] = None"

lemma find_close_length: "find_close s = Some r \<Longrightarrow> length r < length s"
  by (induction s) (auto split: if_splits)

lemma match_at_length: "match_at s = Some r \<Longrightarrow> length r < length s"
proof (cases s rule: match_at.cases)
  case (1 a b cs)
  assume "match_at s = Some r"
  with 1 have "find_close cs = Some r" by (simp split: if_splits)
  then have "length r < length cs" by (rule find_close_length)
  with 1 show ?thesis by simp
qed simp_all

text \<open>\<open>indexRegExp.ReplaceAllString(s, "")\<close>: every leftmost, non-overlapping match is
  deleted; the search resumes right after a match.\<close>

function ReplaceAllString :: "string \<Rightarrow> string" where
  "ReplaceAllString [] = []"
| "ReplaceAllString (c # cs) =
     (case match_at (c # cs) of
        Some rest \<Rightarrow> ReplaceAllString rest
      | None \<Rightarrow> c # ReplaceAllString cs)"
  by pat_completeness auto
termination
  by (relation "measure length") (auto dest: match_at_length)

text \<open>Whether the pattern matches anywhere in a string.\<close>

fun MatchString :: "string \<Rightarrow> bool" where
  "MatchString [] = False"
| "MatchString (c # cs) = (match_at (c # cs) \<noteq> None \<or> MatchString cs)"

section \<open>The key resolver\<close>

text \<open>
  \<open>getModuleKeyName\<close> reads one field of the evaluator, \<open>moduleName\<close>, passed here as
  the first argument. The loop over the segments of the module name appends each
  segment without its \<open>module.\<close> prefix and a dot after every segment but the last.
\<close>

fun keyName_loop :: "string list \<Rightarrow> string" where
  "keyName_loop [] = []"
| "keyName_loop [m] = TrimPrefix m ''module.''"
| "keyName_loop (m # ms) = TrimPrefix m ''module.'' @ ''.'' @ keyName_loop ms"

definition getModuleKeyName :: "string \<Rightarrow> string \<Rightarrow> string" where
  "getModuleKeyName moduleName name =
     (if moduleName = ''root'' then ReplaceAllString name
      else ReplaceAllString (keyName_loop (Split moduleName CHR '':'') @ ''.'' @ name))"

section \<open>Go library: path/filepath on Unix\<close>

text \<open>
  \<open>loadModule\<close> builds directories with \<open>filepath.Join\<close> and \<open>filepath.Clean\<close> and
  tests the source against \<open>os.PathSeparator\<close>. They are modelled for Unix, where the
  separator is the slash and a path has no volume name.
\<close>

definition Separator :: char where
  "Separator = CHR ''/''"

text \<open>\<open>r == n || os.IsPathSeparator(path[r])\<close>, for the unread rest of the path.\<close>

fun at_element_end :: "string \<Rightarrow> bool" where
  "at_element_end [] = True"
| "at_element_end (c # cs) = (c = Separator)"

text \<open>The inner loop of the \<open>..\<close> case of \<open>Clean\<close>:
  \<open>for out.w > dotdot && !os.IsPathSeparator(out.index(out.w)) { out.w-- }\<close>.\<close>

fun backtrack :: "string \<Rightarrow> nat \<Rightarrow> nat \<Rightarrow> nat" where
  "backtrack buf dotdot w =
     (if w > dotdot \<and> buf ! w \<noteq> Separator then backtrack buf dotdot (w - 1) else w)"

declare backtrack.simps [simp del]

text \<open>
  One iteration of the main loop of \<open>Clean\<close>. The unread part of the path (from
  index \<open>r\<close> on) is \<open>c # rest\<close>; \<open>buf\<close> is the output written so far (its length is
  \<open>out.w\<close>), and \<open>dotdot\<close> is the index where \<open>..\<close> must stop backtracking. The
  result is the state after the iteration: the unread part, the output, \<open>dotdot\<close>.
  The four cases are those of the \<open>switch\<close>: an empty element, a \<open>.\<close> element, a
  \<open>..\<close> element, a real element.
\<close>

definition clean_step ::
  "bool \<Rightarrow> char \<Rightarrow> string \<Rightarrow> string \<Rightarrow> nat \<Rightarrow> string \<times> string \<times> nat" where
  "clean_step rooted c rest buf dotdot =
     (if c = Separator then (rest, buf, dotdot)
      else if c = CHR ''.'' \<and> at_element_end rest then (rest, buf, dotdot)
      else if c = CHR ''.'' \<and> take 1 rest = ''.'' \<and> at_element_end (tl rest) then
        (if length buf > dotdot then
           (tl rest, take (backtrack buf dotdot (length buf - 1)) buf, dotdot)
         else if \<not> rooted then
           (tl rest,
            (if length buf > 0 then buf @ [Separator] else buf) @ ''..'',
            length ((if length buf > 0 then buf @ [Separator] else buf) @ ''..''))
         else (tl rest, buf, dotdot))
      else
        (dropWhile (\<lambda>x. x \<noteq> Separator) rest,
         (if rooted \<and> length buf \<noteq> 1 \<or> \<not> rooted \<and> length buf \<noteq> 0
          then buf @ [Separator] else buf)
         @ c # takeWhile (\<lambda>x. x \<noteq> Separator) rest,
         dotdot))"

lemma clean_step_length:
  "length (fst (clean_step rooted c rest buf dotdot)) \<le> length rest"
  by (simp add: clean_step_def length_dropWhile_le)

function clean_loop :: "bool \<Rightarrow> string \<Rightarrow> string \<Rightarrow> nat \<Rightarrow> string" where
  "clean_loop rooted [] buf dotdot = buf"
| "clean_loop rooted (c # rest) buf dotdot =
     (case clean_step rooted c rest buf dotdot of
        (rest', buf', dotdot') \<Rightarrow> clean_loop rooted rest' buf' dotdot')"
  by pat_completeness auto
termination
proof (relation "measure (\<lambda>(rooted, path, buf, dotdot). length path)")
  fix rooted c rest buf dotdot x and xa :: "string \<times> nat" and y and z :: nat
  assume "(x, xa) = clean_step rooted c rest buf dotdot" "(y, z) = xa"
  then have "x = fst (clean_step rooted c rest buf dotdot)" by (metis fst_conv)
  then have "length x \<le> length rest" by (simp only: clean_step_length)
  then show "((rooted, x, y, z), rooted, c # rest, buf, dotdot)
       \<in> measure (\<lambda>(rooted, path, buf, dotdot). length path)" by simp
qed simp

definition Clean :: "string \<Rightarrow> string" where
  "Clean path =
     (if path = [] then ''.''
      else if hd path = Separator then
        (let buf = clean_loop True (tl path) [Separator] 1
         in if length buf = 0 then ''.'' else buf)
      else
        (let buf = clean_loop False path [] 0
         in if length buf = 0 then ''.'' else buf))"

text \<open>\<open>strings.Join(elems, sep)\<close>.\<close>

fun strings_Join :: "string list \<Rightarrow> string \<Rightarrow> string" where
  "strings_Join [] sep = []"
| "strings_Join [a] sep = a"
| "strings_Join (a # b # rest) sep = a @ sep @ strings_Join (b # rest) sep"

text \<open>\<open>filepath.Join(elem...)\<close>: leading empty elements are dropped, the rest is joined
  with the separator and cleaned; no element at all gives the empty string.\<close>

fun Join :: "string list \<Rightarrow> string" where
  "Join [] = []"
| "Join (e # es) =
     (if e \<noteq> [] then Clean (strings_Join (e # es) [Separator]) else Join es)"

text \<open>\<open>filepath.IsAbs\<close> on Unix.\<close>

definition IsAbs :: "string \<Rightarrow> bool" where
  "IsAbs path = HasPrefix path [Separator]"

section \<open>Data model\<close>

text \<open>
  A Go call returns its results or panics. The only call in the file that can panic on
  a value the file itself lets through is \<open>AsString\<close>; the file has no \<open>recover\<close>, so
  a panic ends every function on the call stack, \<open>loadModules\<close> included.
\<close>

datatype 'a outcome = Returns 'a | Panics

text \<open>
  The values an attribute evaluates to (\<open>cty.Value\<close>). A value of type string is a
  known string, the null string or an unknown string; \<open>Type()\<close> is \<open>cty.String\<close> for
  all three.
\<close>

datatype cty_value =
    String_val string
  | Null_string_val
  | Unknown_string_val
  | Number_val int
  | Bool_val bool
  | Dynamic_val

text \<open>\<open>val.Type() == cty.String\<close>.\<close>

fun is_String :: "cty_value \<Rightarrow> bool" where
  "is_String (String_val s) = True"
| "is_String Null_string_val = True"
| "is_String Unknown_string_val = True"
| "is_String (Number_val n) = False"
| "is_String (Bool_val b) = False"
| "is_String Dynamic_val = False"

text \<open>\<open>val.AsString()\<close>: the Go string of a known, non-null string; it panics on a value
  that is not of type string, on an unknown value and on a null value.\<close>

fun AsString :: "cty_value \<Rightarrow> string outcome" where
  "AsString (String_val s) = Returns s"
| "AsString Null_string_val = Panics"
| "AsString Unknown_string_val = Panics"
| "AsString (Number_val n) = Panics"
| "AsString (Bool_val b) = Panics"
| "AsString Dynamic_val = Panics"

text \<open>
  A block as \<open>loadModules\<close> and \<open>loadModule\<close> see it, through the accessors they call:
  \<open>Type()\<close> (read by \<open>OfType\<close>), \<open>Label()\<close>, \<open>Attributes()\<close> with each attribute's
  \<open>Name()\<close> and \<open>Value()\<close>, and \<open>GetMetadata().Range()\<close> printed as a string.
\<close>

record block =
  BlockType :: string
  Label :: string
  Attributes :: "(string \<times> cty_value) list"
  MetadataRange :: string

text \<open>Values the file only passes on: a raw parsed block (\<open>*hcl.Block\<close>), an ignore
  directive, a source file of a module directory, and an error returned by the directory
  listing or the file parser.\<close>

datatype hcl_block = HclBlock string
datatype ignore = Ignore string
datatype module_file = File string
datatype ext_error = ExtError string

text \<open>\<open>block.New(fileBlock, moduleCtx, b, nil)\<close>: a raw block wrapped with the fresh,
  empty module context and with the module block \<open>b\<close> as its parent.\<close>

datatype block_context = NewContext

datatype module_block = New hcl_block block_context block

text \<open>\<open>block.NewHCLModule(rootPath, modulePath, blocks, ignores)\<close>.\<close>

datatype Module = NewHCLModule string string "module_block list" "ignore list"

record ModuleDefinition =
  Name :: string
  Path :: string
  Definition :: block
  Modules :: "Module list"

text \<open>\<open>moduleLoadError\<close>: the declared source and the underlying error, which is either
  \<open>errors.New("missing source code")\<close> or the error \<open>getModuleBlocks\<close> returned.\<close>

datatype cause = Missing_source_code | Underlying ext_error

datatype moduleLoadError = ModuleLoadError (source: string) (err: cause)

text \<open>The errors \<open>loadModule\<close> returns: the two \<open>fmt.Errorf\<close> errors, each with the
  block's range, and the \<open>moduleLoadError\<close>.\<close>

datatype error =
    Module_without_label string
  | Could_not_read_module_source string
  | Load_error moduleLoadError

text \<open>
  What is written to standard error, one value per \<open>Fprintf\<close> call:
  \<open>"WARNING: Failed to load module: %s\n"\<close>,
  \<open>"WARNING: Did you forget to 'terraform init'? The following modules failed to load:\n"\<close>,
  \<open>" - %s\n"\<close> and \<open>"WARNING: HCL error: %s\n"\<close>. The calls to \<open>debug.Log\<close> and to the
  metrics counters write elsewhere and return nothing; they are left out.
\<close>

datatype stderr_line =
    Warning_failed_to_load_module error
  | Warning_terraform_init
  | Failed_module_source string
  | Warning_HCL_error ext_error

record ModuleMetadataEntry =
  Key :: string
  Dir :: string

text \<open>The fields of the evaluator the file reads. \<open>moduleMetadata\<close> is a pointer that
  may be nil; when it is not, its \<open>Modules\<close> are the entries.\<close>

record Evaluator =
  moduleName :: string
  blocks :: "block list"
  moduleMetadata :: "ModuleMetadataEntry list option"
  projectRootPath :: string
  modulePath :: string

text \<open>
  The functions of other packages and files the code calls: \<open>e.expandBlocks\<close>,
  \<open>LoadDirectory(path, stopOnHCLError)\<close> and \<open>LoadBlocksFromFile(file)\<close>. A Go function
  returns all its results at once, an error next to the others; \<open>None\<close> is the nil
  error.
\<close>

record collaborators =
  expandBlocks :: "block list \<Rightarrow> block list"
  LoadDirectory :: "string \<Rightarrow> bool \<Rightarrow> module_file list \<times> ext_error option"
  LoadBlocksFromFile :: "module_file \<Rightarrow> hcl_block list \<times> ignore list \<times> ext_error option"

text \<open>Modelled from the spec: \<open>blocks.OfType\<close> is in package \<open>block\<close>; the spec says of
  it "Filter candidateBlocks to those of type module".\<close>

definition OfType :: "block list \<Rightarrow> string \<Rightarrow> block list" where
  "OfType bs t = filter (\<lambda>b. BlockType b = t) bs"

section \<open>The directory block loader\<close>

text \<open>
  The loop of \<open>getModuleBlocks\<close> over the files, with the three variables it updates:
  the blocks, the ignores and what was written to standard error. A file whose parse
  returned an error ends the call when \<open>stopOnHCLError\<close> is set, and is skipped with a
  warning otherwise.
\<close>

fun getModuleBlocks_loop ::
  "collaborators \<Rightarrow> block \<Rightarrow> bool \<Rightarrow> module_file list \<Rightarrow>
   module_block list \<Rightarrow> ignore list \<Rightarrow> stderr_line list \<Rightarrow>
   module_block list \<times> ignore list \<times> ext_error option \<times> stderr_line list" where
  "getModuleBlocks_loop w b stopOnHCLError [] bs igs out = (bs, igs, None, out)"
| "getModuleBlocks_loop w b stopOnHCLError (f # files) bs igs out =
     (case LoadBlocksFromFile w f of
        (fileBlocks, fileIgnores, Some e) \<Rightarrow>
          if stopOnHCLError then ([], [], Some e, out)
          else getModuleBlocks_loop w b stopOnHCLError files bs igs
                 (out @ [Warning_HCL_error e])
      | (fileBlocks, fileIgnores, None) \<Rightarrow>
          getModuleBlocks_loop w b stopOnHCLError files
            (bs @ map (\<lambda>fileBlock. New fileBlock NewContext b) fileBlocks)
            (igs @ fileIgnores) out)"

definition getModuleBlocks ::
  "collaborators \<Rightarrow> block \<Rightarrow> string \<Rightarrow> bool \<Rightarrow>
   module_block list \<times> ignore list \<times> ext_error option \<times> stderr_line list" where
  "getModuleBlocks w b dir stopOnHCLError =
     (case LoadDirectory w dir stopOnHCLError of
        (moduleFiles, Some e) \<Rightarrow> ([], [], Some e, [])
      | (moduleFiles, None) \<Rightarrow>
          getModuleBlocks_loop w b stopOnHCLError moduleFiles [] [] [])"

section \<open>The single module resolver\<close>

text \<open>The loop over the attributes: \<open>source\<close> starts empty and becomes the string
  of every attribute called \<open>source\<close> that has type string, in turn, so the last one
  stays. \<open>AsString\<close> is called on each of them, and its panic ends the loop.\<close>

fun source_loop :: "(string \<times> cty_value) list \<Rightarrow> string \<Rightarrow> string outcome" where
  "source_loop [] src = Returns src"
| "source_loop ((name, val) # attrs) src =
     (if name = ''source'' \<and> is_String val
      then (case AsString val of
              Returns s \<Rightarrow> source_loop attrs s
            | Panics \<Rightarrow> Panics)
      else source_loop attrs src)"

text \<open>The loop over the metadata entries: the first entry with the key sets the module
  path and ends the loop; with no such entry the path stays empty.\<close>

fun metadata_loop :: "string \<Rightarrow> string \<Rightarrow> ModuleMetadataEntry list \<Rightarrow> string" where
  "metadata_loop root name [] = []"
| "metadata_loop root name (m # ms) =
     (if Key m = name then Clean (Join [root, Dir m])
      else metadata_loop root name ms)"

text \<open>Lines 127 to 153 of \<open>loadModule\<close>: the module path, or the load error for a source
  that has no metadata entry and is not a local relative path.\<close>

definition resolve_modulePath ::
  "Evaluator \<Rightarrow> block \<Rightarrow> string \<Rightarrow> moduleLoadError + string" where
  "resolve_modulePath e b src =
     (let fromMetadata =
            (case moduleMetadata e of
               None \<Rightarrow> []
             | Some entries \<Rightarrow>
                 metadata_loop (projectRootPath e)
                   (getModuleKeyName (moduleName e) (Label b)) entries)
      in if fromMetadata = [] then
           (if \<not> HasPrefix src (''.'' @ [Separator]) \<and>
               \<not> HasPrefix src (''..'' @ [Separator])
            then Inl (ModuleLoadError src Missing_source_code)
            else Inr (Join [modulePath e, src]))
         else Inr fromMetadata)"

text \<open>Lines 155 to 170 of \<open>loadModule\<close>: the blocks of the directory are loaded; a
  failure is wrapped with the declared source, a success gives the module definition.\<close>

definition load_directory ::
  "collaborators \<Rightarrow> Evaluator \<Rightarrow> block \<Rightarrow> string \<Rightarrow> string \<Rightarrow> bool \<Rightarrow>
   (error + ModuleDefinition) \<times> stderr_line list" where
  "load_directory w e b src dir stopOnHCLError =
     (case getModuleBlocks w b dir stopOnHCLError of
        (bs, igs, Some x, out) \<Rightarrow>
          (Inl (Load_error (ModuleLoadError src (Underlying x))), out)
      | (bs, igs, None, out) \<Rightarrow>
          (Inr \<lparr> Name = Label b, Path = dir, Definition = b,
                 Modules = [NewHCLModule (projectRootPath e) dir bs igs] \<rparr>,
           out))"

text \<open>Lines 123 to 170 of \<open>loadModule\<close>, with the source that the loop over the
  attributes has read.\<close>

definition load_source ::
  "collaborators \<Rightarrow> Evaluator \<Rightarrow> block \<Rightarrow> string \<Rightarrow> bool \<Rightarrow>
   (error + ModuleDefinition) \<times> stderr_line list" where
  "load_source w e b src stopOnHCLError =
     (if src = [] then (Inl (Could_not_read_module_source (MetadataRange b)), [])
      else
        (case resolve_modulePath e b src of
           Inl loadErr \<Rightarrow> (Inl (Load_error loadErr), [])
         | Inr dir \<Rightarrow> load_directory w e b src dir stopOnHCLError))"

text \<open>\<open>loadModule\<close> returns the module definition or an error, and what it wrote to
  standard error; or it panics, in the loop over the attributes.\<close>

definition loadModule ::
  "collaborators \<Rightarrow> Evaluator \<Rightarrow> block \<Rightarrow> bool \<Rightarrow>
   ((error + ModuleDefinition) \<times> stderr_line list) outcome" where
  "loadModule w e b stopOnHCLError =
     (if Label b = [] then Returns (Inl (Module_without_label (MetadataRange b)), [])
      else
        (case source_loop (Attributes b) [] of
           Panics \<Rightarrow> Panics
         | Returns src \<Rightarrow> Returns (load_source w e b src stopOnHCLError)))"

section \<open>The module-block loader\<close>

text \<open>
  The loop of \<open>loadModules\<close> over the expanded module blocks, with the variables it
  updates: \<open>moduleDefinitions\<close>, \<open>loadErrors\<close> and standard error. A load error whose
  source is already among \<open>loadErrors\<close> is not added again. A panic of \<open>loadModule\<close>
  is not recovered: it ends the loop.
\<close>

fun loadModules_loop ::
  "collaborators \<Rightarrow> Evaluator \<Rightarrow> bool \<Rightarrow> block list \<Rightarrow>
   ModuleDefinition list \<Rightarrow> moduleLoadError list \<Rightarrow> stderr_line list \<Rightarrow>
   (ModuleDefinition list \<times> moduleLoadError list \<times> stderr_line list) outcome" where
  "loadModules_loop w e stopOnHCLError [] defs loadErrors out =
     Returns (defs, loadErrors, out)"
| "loadModules_loop w e stopOnHCLError (moduleBlock # rest) defs loadErrors out =
     (if Label moduleBlock = [] then
        loadModules_loop w e stopOnHCLError rest defs loadErrors out
      else
        (case loadModule w e moduleBlock stopOnHCLError of
           Panics \<Rightarrow> Panics
         | Returns (Inl (Load_error loadErr), written) \<Rightarrow>
             loadModules_loop w e stopOnHCLError rest defs
               (if list_ex (\<lambda>fm. source fm = source loadErr) loadErrors
                then loadErrors else loadErrors @ [loadErr])
               (out @ written)
         | Returns (Inl (Module_without_label r), written) \<Rightarrow>
             loadModules_loop w e stopOnHCLError rest defs loadErrors
               (out @ written @ [Warning_failed_to_load_module (Module_without_label r)])
         | Returns (Inl (Could_not_read_module_source r), written) \<Rightarrow>
             loadModules_loop w e stopOnHCLError rest defs loadErrors
               (out @ written
                  @ [Warning_failed_to_load_module (Could_not_read_module_source r)])
         | Returns (Inr moduleDefinition, written) \<Rightarrow>
             loadModules_loop w e stopOnHCLError rest (defs @ [moduleDefinition])
               loadErrors (out @ written)))"

text \<open>The report written after the loop when there are load errors.\<close>

definition report :: "moduleLoadError list \<Rightarrow> stderr_line list" where
  "report loadErrors =
     (if length loadErrors > 0
      then Warning_terraform_init # map (\<lambda>le. Failed_module_source (source le)) loadErrors
      else [])"

text \<open>\<open>loadModules\<close> returns the module definitions; the second component is what the
  call wrote to standard error. When the loop panics, so does \<open>loadModules\<close>.\<close>

definition loadModules ::
  "collaborators \<Rightarrow> Evaluator \<Rightarrow> bool \<Rightarrow>
   (ModuleDefinition list \<times> stderr_line list) outcome" where
  "loadModules w e stopOnHCLError =
     (case loadModules_loop w e stopOnHCLError
             (expandBlocks w (OfType (blocks e) ''module'')) [] [] [] of
        Panics \<Rightarrow> Panics
      | Returns (defs, loadErrors, out) \<Rightarrow> Returns (defs, out @ report loadErrors))"

section \<open>Reference definitions for the claims\<close>

text \<open>What the directory block loader is claimed to return, written from the claim's
  words: the files that parse, their blocks wrapped for the module block \<open>b\<close>, their
  ignores, and the warnings for the files that do not parse.\<close>

definition parsed_ok :: "collaborators \<Rightarrow> module_file \<Rightarrow> bool" where
  "parsed_ok w f = (snd (snd (LoadBlocksFromFile w f)) = None)"

definition blocks_of_files :: "collaborators \<Rightarrow> block \<Rightarrow> module_file list \<Rightarrow> module_block list" where
  "blocks_of_files w b files =
     concat (map (\<lambda>f. map (\<lambda>fileBlock. New fileBlock NewContext b) (fst (LoadBlocksFromFile w f)))
                 (filter (parsed_ok w) files))"

definition ignores_of_files :: "collaborators \<Rightarrow> module_file list \<Rightarrow> ignore list" where
  "ignores_of_files w files =
     concat (map (\<lambda>f. fst (snd (LoadBlocksFromFile w f))) (filter (parsed_ok w) files))"

definition warnings_of_files :: "collaborators \<Rightarrow> module_file list \<Rightarrow> stderr_line list" where
  "warnings_of_files w files =
     map Warning_HCL_error (List.map_filter (\<lambda>f. snd (snd (LoadBlocksFromFile w f))) files)"

text \<open>The module definitions of the blocks that \<open>loadModule\<close> loads, in block
  order.\<close>

definition loaded :: "collaborators \<Rightarrow> Evaluator \<Rightarrow> bool \<Rightarrow> block list \<Rightarrow> ModuleDefinition list" where
  "loaded w e stop bs =
     List.map_filter
       (\<lambda>b. case loadModule w e b stop of
               Returns (Inr d, written) \<Rightarrow> Some d
             | _ \<Rightarrow> None) bs"

text \<open>The sources of the blocks for which \<open>loadModule\<close> returns a load error, in
  block order.\<close>

definition failed_sources :: "collaborators \<Rightarrow> Evaluator \<Rightarrow> bool \<Rightarrow> block list \<Rightarrow> string list" where
  "failed_sources w e stop bs =
     List.map_filter
       (\<lambda>b. case loadModule w e b stop of
               Returns (Inl (Load_error le), written) \<Rightarrow> Some (source le)
             | _ \<Rightarrow> None) bs"

text \<open>What one block adds to standard error in the loop of \<open>loadModules\<close>: nothing
  for a block without label; otherwise what \<open>loadModule\<close> wrote, and one warning when
  its error is not a load error.\<close>

definition written_for :: "collaborators \<Rightarrow> Evaluator \<Rightarrow> bool \<Rightarrow> block \<Rightarrow> stderr_line list" where
  "written_for w e stop b =
     (if Label b = [] then []
      else (case loadModule w e b stop of
              Returns (Inl (Load_error le), written) \<Rightarrow> written
            | Returns (Inl er, written) \<Rightarrow> written @ [Warning_failed_to_load_module er]
            | Returns (Inr d, written) \<Rightarrow> written
            | Panics \<Rightarrow> []))"

text \<open>Whether \<open>loadModule\<close> is called on the block and panics.\<close>

definition panics_on :: "block \<Rightarrow> bool" where
  "panics_on b \<longleftrightarrow> Label b \<noteq> [] \<and> source_loop (Attributes b) [] = Panics"

text \<open>The parser of a project with every partial result that came with an error
  thrown away.\<close>

definition discard_partial_results :: "collaborators \<Rightarrow> collaborators" where
  "discard_partial_results w =
     w \<lparr> LoadBlocksFromFile :=
           (\<lambda>f. case LoadBlocksFromFile w f of
                   (fileBlocks, fileIgnores, Some e) \<Rightarrow> ([], [], Some e)
                 | (fileBlocks, fileIgnores, None) \<Rightarrow> (fileBlocks, fileIgnores, None)) \<rparr>"

subsection \<open>Clean paths\<close>

text \<open>A path element that \<open>Clean\<close> keeps: not empty, without separator, and neither
  \<open>.\<close> nor \<open>..\<close>.\<close>

definition normal :: "string \<Rightarrow> bool" where
  "normal c \<longleftrightarrow> c \<noteq> [] \<and> Separator \<notin> set c \<and> c \<noteq> ''.'' \<and> c \<noteq> ''..''"

text \<open>Elements joined with the separator.\<close>

abbreviation joinc :: "string list \<Rightarrow> string" where
  "joinc cs \<equiv> strings_Join cs [Separator]"

text \<open>The shape of the output buffer of \<open>Clean\<close>: for a rooted path the separator and
  then kept elements; otherwise some \<open>..\<close> elements, up to \<open>dotdot\<close>, and then kept
  elements.\<close>

definition clean_form :: "bool \<Rightarrow> string \<Rightarrow> nat \<Rightarrow> bool" where
  "clean_form rooted buf dotdot \<longleftrightarrow>
     (if rooted
      then (\<exists>cs. list_all normal cs \<and> buf = Separator # joinc cs \<and> dotdot = 1)
      else (\<exists>k cs. list_all normal cs \<and> buf = joinc (replicate k ''..'' @ cs) \<and>
              dotdot = length (joinc (replicate k ''..''))))"

section \<open>An example project\<close>

text \<open>A project used to evaluate the theorems below on concrete input: three
  directories that can be read, one of them with a file that does not parse (its parser
  result carries partial blocks and ignores next to the error).\<close>

definition example_parser :: "module_file \<Rightarrow> hcl_block list \<times> ignore list \<times> ext_error option" where
  "example_parser f =
     (if f = File ''main.tf'' then ([HclBlock ''resource''], [Ignore ''main-ignore''], None)
      else if f = File ''broken.tf''
        then ([HclBlock ''partial''], [Ignore ''broken-ignore''], Some (ExtError ''syntax error''))
      else ([HclBlock ''output''], [Ignore ''outputs-ignore''], None))"

definition example_directory :: "string \<Rightarrow> bool \<Rightarrow> module_file list \<times> ext_error option" where
  "example_directory dir stopOnHCLError =
     (if dir = ''/proj/modules/shared''
        then ([File ''main.tf'', File ''broken.tf'', File ''outputs.tf''], None)
      else if dir = ''/proj/vendor/x'' \<or> dir = ''modules/child''
        then ([File ''main.tf''], None)
      else ([], Some (ExtError ''no such directory'')))"

definition example_world :: collaborators where
  "example_world =
     \<lparr> expandBlocks = (\<lambda>bs. bs),
       LoadDirectory = example_directory,
       LoadBlocksFromFile = example_parser \<rparr>"

definition example_block :: "string \<Rightarrow> string \<Rightarrow> block" where
  "example_block l src =
     \<lparr> BlockType = ''module'', Label = l,
       Attributes = [(''source'', String_val src)], MetadataRange = ''main.tf:1'' \<rparr>"

text \<open>A module block whose \<open>source\<close> evaluates to the null string, as for
  \<open>source = var.src\<close> with a string variable that defaults to null.\<close>

definition example_null_block :: block where
  "example_null_block =
     \<lparr> BlockType = ''module'', Label = ''nullsrc'',
       Attributes = [(''source'', Null_string_val)], MetadataRange = ''main.tf:9'' \<rparr>"

definition example_evaluator :: Evaluator where
  "example_evaluator =
     \<lparr> moduleName = ''root'',
       blocks =
         [example_block ''x'' ''git::https://example.com/x'',
          example_block ''shared'' ''../shared'',
          example_block [] ''../shared'',
          example_block ''s3a'' ''s3::bucket/path'',
          example_block ''nosrc'' [],
          example_block ''s3b'' ''s3::bucket/path''],
       moduleMetadata = Some [\<lparr> Key = ''x'', Dir = ''vendor/x'' \<rparr>],
       projectRootPath = ''/proj'',
       modulePath = ''/proj/modules/a'' \<rparr>"

text \<open>The two module definitions the example project loads.\<close>

definition example_x_definition :: ModuleDefinition where
  "example_x_definition =
     \<lparr> Name = ''x'', Path = ''/proj/vendor/x'',
       Definition = example_block ''x'' ''git::https://example.com/x'',
       Modules = [NewHCLModule ''/proj'' ''/proj/vendor/x''
                    [New (HclBlock ''resource'') NewContext
                       (example_block ''x'' ''git::https://example.com/x'')]
                    [Ignore ''main-ignore'']] \<rparr>"

definition example_shared_definition :: ModuleDefinition where
  "example_shared_definition =
     \<lparr> Name = ''shared'', Path = ''/proj/modules/shared'',
       Definition = example_block ''shared'' ''../shared'',
       Modules = [NewHCLModule ''/proj'' ''/proj/modules/shared''
                    [New (HclBlock ''resource'') NewContext
                       (example_block ''shared'' ''../shared''),
                     New (HclBlock ''output'') NewContext
                       (example_block ''shared'' ''../shared'')]
                    [Ignore ''main-ignore'', Ignore ''outputs-ignore'']] \<rparr>"

section \<open>Properties of the index pattern\<close>

lemma find_close_None_match_at:
  "find_close r = None \<Longrightarrow> match_at (x # r) = None"
  by (cases r) (auto split: if_splits)

lemma match_at_newline: "match_at (newline # r) = None"
  by (cases r) (auto simp: newline_def)

lemma find_close_ReplaceAllString:
  "find_close r = None \<Longrightarrow> find_close (ReplaceAllString r) = None"
proof (induction r)
  case Nil
  then show ?case by simp
next
  case (Cons x r)
  show ?case
  proof (cases "x = newline")
    case True
    then show ?thesis using match_at_newline [of r] by (simp add: newline_def)
  next
    case False
    with Cons.prems have nc: "x \<noteq> CHR '']''" and fr: "find_close r = None"
      by (auto split: if_splits)
    have "match_at (x # r) = None" using fr by (rule find_close_None_match_at)
    then show ?thesis using Cons.IH [OF fr] nc False by simp
  qed
qed

text \<open>Deleting matches further right never makes a bracket that had no match
  matchable: the text between it and the end of its line has no closing bracket to
  offer.\<close>

lemma match_at_ReplaceAllString:
  assumes m: "match_at (c # cs) = None"
  shows "match_at (c # ReplaceAllString cs) = None"
proof (cases cs)
  case Nil
  then show ?thesis by simp
next
  case (Cons d r)
  show ?thesis
  proof (cases "c = CHR ''[''")
    case False
    then show ?thesis by (cases "ReplaceAllString cs") auto
  next
    case open_bracket: True
    show ?thesis
    proof (cases "d = newline")
      case True
      then have "ReplaceAllString cs = d # ReplaceAllString r"
        using Cons match_at_newline [of r] by simp
      then show ?thesis using True by simp
    next
      case False
      with m Cons open_bracket have fr: "find_close r = None" by simp
      have "match_at (d # r) = None" using fr by (rule find_close_None_match_at)
      then have "ReplaceAllString cs = d # ReplaceAllString r" using Cons by simp
      then show ?thesis using find_close_ReplaceAllString [OF fr] by simp
    qed
  qed
qed

lemma MatchString_ReplaceAllString: "\<not> MatchString (ReplaceAllString s)"
proof (induction s rule: ReplaceAllString.induct)
  case 1
  then show ?case by simp
next
  case (2 c cs)
  show ?case
  proof (cases "match_at (c # cs)")
    case None
    then show ?thesis using 2(1) [OF None] match_at_ReplaceAllString [OF None] by simp
  next
    case (Some rest)
    then show ?thesis using 2(2) [OF Some] by simp
  qed
qed

lemma ReplaceAllString_no_match: "\<not> MatchString s \<Longrightarrow> ReplaceAllString s = s"
  by (induction s) auto

lemma no_open_bracket_no_match: "CHR ''['' \<notin> set s \<Longrightarrow> \<not> MatchString s"
proof (induction s)
  case Nil
  then show ?case by simp
next
  case (Cons c cs)
  have "match_at (c # cs) = None" using Cons.prems by (cases cs) auto
  then show ?case using Cons by simp
qed

section \<open>Properties of the directory block loader\<close>

lemma getModuleBlocks_loop_tolerant:
  "getModuleBlocks_loop w b False files bs igs out =
     (bs @ blocks_of_files w b files, igs @ ignores_of_files w files, None,
      out @ warnings_of_files w files)"
proof (induction files arbitrary: bs igs out)
  case Nil
  then show ?case
    by (simp add: blocks_of_files_def ignores_of_files_def warnings_of_files_def map_filter_simps)
next
  case (Cons f files)
  obtain fb fi fe where r: "LoadBlocksFromFile w f = (fb, fi, fe)" by (cases "LoadBlocksFromFile w f")
  show ?case
  proof (cases fe)
    case None
    then show ?thesis using r Cons.IH
      by (simp add: blocks_of_files_def ignores_of_files_def warnings_of_files_def
          map_filter_simps parsed_ok_def)
  next
    case (Some x)
    then show ?thesis using r Cons.IH
      by (simp add: blocks_of_files_def ignores_of_files_def warnings_of_files_def
          map_filter_simps parsed_ok_def)
  qed
qed

lemma getModuleBlocks_loop_strict_fail:
  "\<exists>f\<in>set files. \<not> parsed_ok w f \<Longrightarrow>
   \<exists>x. getModuleBlocks_loop w b True files bs igs out = ([], [], Some x, out)"
proof (induction files arbitrary: bs igs)
  case Nil
  then show ?case by simp
next
  case (Cons f files)
  obtain fb fi fe where r: "LoadBlocksFromFile w f = (fb, fi, fe)" by (cases "LoadBlocksFromFile w f")
  show ?case
  proof (cases fe)
    case None
    then have "parsed_ok w f" using r by (simp add: parsed_ok_def)
    with Cons.prems have "\<exists>f\<in>set files. \<not> parsed_ok w f" by auto
    from Cons.IH [OF this] show ?thesis using r None by simp
  next
    case (Some x)
    then show ?thesis using r by simp
  qed
qed

lemma getModuleBlocks_loop_strict_ok:
  "\<forall>f\<in>set files. parsed_ok w f \<Longrightarrow>
   getModuleBlocks_loop w b True files bs igs out =
     (bs @ blocks_of_files w b files, igs @ ignores_of_files w files, None, out)"
proof (induction files arbitrary: bs igs)
  case Nil
  then show ?case by (simp add: blocks_of_files_def ignores_of_files_def)
next
  case (Cons f files)
  obtain fb fi fe where r: "LoadBlocksFromFile w f = (fb, fi, fe)" by (cases "LoadBlocksFromFile w f")
  from Cons.prems have ok: "parsed_ok w f" and rest: "\<forall>f\<in>set files. parsed_ok w f" by auto
  from ok r have fe: "fe = None" by (simp add: parsed_ok_def)
  show ?case using r fe ok Cons.IH [OF rest]
    by (simp add: blocks_of_files_def ignores_of_files_def)
qed


lemma example_files:
  "LoadDirectory example_world ''/proj/modules/shared'' stop =
     ([File ''main.tf'', File ''broken.tf'', File ''outputs.tf''], None)"
  by (simp add: example_world_def example_directory_def)

lemma example_broken: "\<not> parsed_ok example_world (File ''broken.tf'')"
  by (simp add: parsed_ok_def example_world_def example_parser_def)

lemma getModuleBlocks_loop_discard:
  "getModuleBlocks_loop (discard_partial_results w) b stop files bs igs out =
   getModuleBlocks_loop w b stop files bs igs out"
proof (induction files arbitrary: bs igs out)
  case Nil
  then show ?case by simp
next
  case (Cons f files)
  obtain fb fi fe where r: "LoadBlocksFromFile w f = (fb, fi, fe)"
    by (cases "LoadBlocksFromFile w f")
  show ?case
  proof (cases fe)
    case None
    with r have "LoadBlocksFromFile (discard_partial_results w) f = (fb, fi, None)"
      by (simp add: discard_partial_results_def)
    with r None show ?thesis using Cons.IH by simp
  next
    case (Some x)
    with r have "LoadBlocksFromFile (discard_partial_results w) f = ([], [], Some x)"
      by (simp add: discard_partial_results_def)
    with r Some show ?thesis using Cons.IH by (cases stop) simp_all
  qed
qed

section \<open>Properties of path cleaning\<close>

text \<open>A rooted path stays rooted: the output starts as the separator, \<open>dotdot\<close> is
  1, and backtracking never goes below \<open>dotdot\<close>.\<close>

lemma backtrack_bounds:
  "dotdot \<le> w \<Longrightarrow> dotdot \<le> backtrack buf dotdot w \<and> backtrack buf dotdot w \<le> w"
proof (induction buf dotdot w rule: backtrack.induct)
  case (1 buf dotdot w)
  show ?case
  proof (cases "w > dotdot \<and> buf ! w \<noteq> Separator")
    case True
    then have "dotdot \<le> w - 1" by arith
    from 1(1) [OF True this] True show ?thesis
      by (subst (1 2) backtrack.simps) auto
  next
    case False
    then show ?thesis using 1(2) by (subst (1 2) backtrack.simps) auto
  qed
qed

lemma IsAbs_iff: "IsAbs p \<longleftrightarrow> p \<noteq> [] \<and> hd p = Separator"
  by (cases p) (auto simp: IsAbs_def HasPrefix_def)

lemma clean_step_rooted:
  assumes "IsAbs buf" and "1 \<le> dotdot"
    and "clean_step True c rest buf dotdot = (rest', buf', dotdot')"
  shows "IsAbs buf' \<and> dotdot' = dotdot"
proof -
  let ?w = "backtrack buf dotdot (length buf - 1)"
  have tk: "length buf > dotdot \<Longrightarrow> IsAbs (take ?w buf)"
  proof -
    assume "length buf > dotdot"
    then have "dotdot \<le> length buf - 1" by simp
    then have "dotdot \<le> ?w" using backtrack_bounds by blast
    with assms(2) have "1 \<le> ?w" by simp
    then obtain k where "?w = Suc k" by (cases ?w) auto
    then show ?thesis using assms(1) by (cases buf) (auto simp: IsAbs_iff)
  qed
  have ap: "\<And>xs. IsAbs (buf @ xs)" using assms(1) by (cases buf) (auto simp: IsAbs_iff)
  from assms(3) tk ap assms(1) show ?thesis
    by (auto simp: clean_step_def split: if_splits)
qed

lemma clean_loop_rooted:
  "IsAbs buf \<Longrightarrow> 1 \<le> dotdot \<Longrightarrow> IsAbs (clean_loop True path buf dotdot)"
proof (induction path arbitrary: buf dotdot rule: length_induct)
  case (1 path)
  show ?case
  proof (cases path)
    case Nil
    then show ?thesis using 1 by simp
  next
    case (Cons c rest)
    obtain rest' buf' dotdot' where st: "clean_step True c rest buf dotdot = (rest', buf', dotdot')"
      by (cases "clean_step True c rest buf dotdot") auto
    from clean_step_rooted [OF 1(2) 1(3) st] have inv: "IsAbs buf'" "dotdot' = dotdot" by auto
    have "length rest' \<le> length rest" using clean_step_length [of True c rest buf dotdot] st by simp
    then have "length rest' < length path" using Cons by simp
    with 1(1) inv 1(3) have "IsAbs (clean_loop True rest' buf' dotdot')" by blast
    then show ?thesis using Cons st by simp
  qed
qed

lemma Clean_IsAbs: "IsAbs p \<Longrightarrow> IsAbs (Clean p)"
proof -
  assume a: "IsAbs p"
  then have p: "p \<noteq> []" "hd p = Separator" by (auto simp: IsAbs_iff)
  have i: "IsAbs [Separator]" by (simp add: IsAbs_iff)
  have "IsAbs (clean_loop True (tl p) [Separator] 1)"
    by (rule clean_loop_rooted [OF i]) simp
  then show ?thesis using p by (simp add: Clean_def Let_def IsAbs_iff)
qed

lemma Join_IsAbs: "IsAbs root \<Longrightarrow> IsAbs (Join [root, x])"
proof -
  assume a: "IsAbs root"
  then have "root \<noteq> []" by (simp add: IsAbs_iff)
  moreover have "IsAbs (root @ [Separator] @ x)" using a by (cases root) (auto simp: IsAbs_iff)
  ultimately show ?thesis using Clean_IsAbs by simp
qed

lemma Join_Clean: "root \<noteq> [] \<or> x \<noteq> [] \<Longrightarrow> \<exists>p. Join [root, x] = Clean p"
  by auto

subsection \<open>Cleaning a clean path changes nothing\<close>

lemma backtrack_stops:
  assumes "dotdot \<le> lo" and "lo \<le> w"
    and "\<forall>i. lo < i \<and> i \<le> w \<longrightarrow> buf ! i \<noteq> Separator"
    and "buf ! lo = Separator \<or> lo = dotdot"
  shows "backtrack buf dotdot w = lo"
  using assms
proof (induction buf dotdot w rule: backtrack.induct)
  case (1 buf dotdot w)
  show ?case
  proof (cases "w = lo")
    case True
    then show ?thesis using 1(5) by (subst backtrack.simps) auto
  next
    case False
    with 1(3) have lt: "lo < w" by simp
    then have c: "w > dotdot \<and> buf ! w \<noteq> Separator" using 1(2) 1(4) by auto
    have "backtrack buf dotdot (w - 1) = lo"
    proof (rule 1(1) [OF c 1(2)])
      show "lo \<le> w - 1" using lt by simp
      show "\<forall>i. lo < i \<and> i \<le> w - 1 \<longrightarrow> buf ! i \<noteq> Separator" using 1(4) by auto
      show "buf ! lo = Separator \<or> lo = dotdot" by (rule 1(5))
    qed
    then show ?thesis using c by (subst backtrack.simps) simp
  qed
qed

lemma joinc_snoc:
  "joinc (cs @ [c]) = (if cs = [] then c else joinc cs @ Separator # c)"
  by (induction cs "[Separator]" rule: strings_Join.induct) auto

lemma joinc_Cons:
  "joinc (c # cs) = (if cs = [] then c else c @ Separator # joinc cs)"
  by (cases cs) auto

text \<open>Removing the last component.\<close>

lemma backtrack_last_component:
  assumes "Separator \<notin> set c" and "dotdot \<le> length pre"
  shows "backtrack (pre @ Separator # c) dotdot (length (pre @ Separator # c) - 1) = length pre"
proof (rule backtrack_stops)
  show "dotdot \<le> length pre" by (rule assms(2))
  show "length pre \<le> length (pre @ Separator # c) - 1" by simp
  show "\<forall>i. length pre < i \<and> i \<le> length (pre @ Separator # c) - 1 \<longrightarrow>
          (pre @ Separator # c) ! i \<noteq> Separator"
  proof (intro allI impI)
    fix i
    assume i: "length pre < i \<and> i \<le> length (pre @ Separator # c) - 1"
    define j where "j = i - Suc (length pre)"
    from i have j: "i = length pre + Suc j" "j < length c"
      by (auto simp: j_def)
    from j have "(pre @ Separator # c) ! i = c ! j" by (simp add: nth_append)
    with j assms(1) show "(pre @ Separator # c) ! i \<noteq> Separator"
      by (metis nth_mem)
  qed
  show "(pre @ Separator # c) ! length pre = Separator \<or> length pre = dotdot" by simp
qed

lemma backtrack_only_component:
  assumes "Separator \<notin> set c" and "c \<noteq> []"
  shows "backtrack (pre @ c) (length pre) (length (pre @ c) - 1) = length pre"
proof (rule backtrack_stops)
  show "length pre \<le> length pre" by simp
  show "length pre \<le> length (pre @ c) - 1" using assms(2) by (cases c) auto
  show "\<forall>i. length pre < i \<and> i \<le> length (pre @ c) - 1 \<longrightarrow> (pre @ c) ! i \<noteq> Separator"
  proof (intro allI impI)
    fix i
    assume i: "length pre < i \<and> i \<le> length (pre @ c) - 1"
    then have "i - length pre < length c" using assms(2) by (cases c) auto
    moreover have "(pre @ c) ! i = c ! (i - length pre)" using i by (simp add: nth_append)
    ultimately show "(pre @ c) ! i \<noteq> Separator" using assms(1) by (metis nth_mem)
  qed
  show "(pre @ c) ! length pre = Separator \<or> length pre = length pre" by simp
qed

lemma joinc_empty: "list_all (\<lambda>c. c \<noteq> []) cs \<Longrightarrow> joinc cs = [] \<longleftrightarrow> cs = []"
  by (induction cs "[Separator]" rule: strings_Join.induct) auto

lemma joinc_append_length: "length (joinc ps) \<le> length (joinc (ps @ cs))"
proof (induction cs rule: rev_induct)
  case Nil
  then show ?case by simp
next
  case (snoc c cs)
  have "length (joinc (ps @ cs)) \<le> length (joinc ((ps @ cs) @ [c]))"
    by (simp only: joinc_snoc) simp
  with snoc show ?case by simp
qed

lemma normal_not_empty: "list_all normal cs \<Longrightarrow> list_all (\<lambda>c. c \<noteq> []) cs"
  by (induction cs) (auto simp: normal_def)

lemma dotdots_not_empty: "list_all (\<lambda>c. c \<noteq> []) (replicate k ''..'')"
  by (induction k) auto

lemma real_element_normal:
  assumes "c \<noteq> Separator"
    and "\<not> (c = CHR ''.'' \<and> at_element_end rest)"
    and "\<not> (c = CHR ''.'' \<and> take 1 rest = ''.'' \<and> at_element_end (tl rest))"
  shows "normal (c # takeWhile (\<lambda>x. x \<noteq> Separator) rest)"
proof -
  let ?t = "takeWhile (\<lambda>x. x \<noteq> Separator) rest"
  have t0: "?t = [] \<longleftrightarrow> at_element_end rest" by (cases rest) auto
  have sep: "Separator \<notin> set (c # ?t)" using assms(1) by (auto dest: set_takeWhileD)
  have nd: "c # ?t \<noteq> ''.''" using assms(2) t0 by auto
  have ndd: "c # ?t \<noteq> ''..''"
  proof
    assume e: "c # ?t = ''..''"
    then have c: "c = CHR ''.''" and t: "?t = ''.''" by auto
    from t obtain r where r: "rest = CHR ''.'' # r"
      by (cases rest) (auto split: if_splits)
    with t have "takeWhile (\<lambda>x. x \<noteq> Separator) r = []" by (simp add: Separator_def)
    then have "at_element_end r" by (cases r) (auto split: if_splits)
    with c r assms(3) show False by simp
  qed
  from sep nd ndd show ?thesis by (simp add: normal_def)
qed

lemma clean_form_rooted_pop:
  assumes "list_all normal cs" and "length (Separator # joinc cs) > 1"
  shows "\<exists>cs'. list_all normal cs' \<and>
           take (backtrack (Separator # joinc cs) 1 (length (Separator # joinc cs) - 1))
             (Separator # joinc cs) = Separator # joinc cs'"
proof -
  from assms(2) have "cs \<noteq> []" by auto
  then obtain cs' c where cs: "cs = cs' @ [c]" by (metis rev_exhaust)
  with assms(1) have n': "list_all normal cs'" and nc: "normal c" by auto
  from nc have sf: "Separator \<notin> set c" and ne: "c \<noteq> []" by (auto simp: normal_def)
  show ?thesis
  proof (cases "cs' = []")
    case True
    then have b: "Separator # joinc cs = [Separator] @ c" using cs by simp
    from backtrack_only_component [OF sf ne, of "[Separator]"]
    have "backtrack ([Separator] @ c) 1 (length ([Separator] @ c) - 1) = 1" by simp
    then have "take (backtrack (Separator # joinc cs) 1 (length (Separator # joinc cs) - 1))
             (Separator # joinc cs) = Separator # joinc []"
      unfolding b by simp
    then show ?thesis by (intro exI [of _ "[]"]) simp
  next
    case False
    then have b: "Separator # joinc cs = (Separator # joinc cs') @ Separator # c"
      using cs by (simp add: joinc_snoc)
    from backtrack_last_component [OF sf, of 1 "Separator # joinc cs'"]
    have "backtrack ((Separator # joinc cs') @ Separator # c) 1
            (length ((Separator # joinc cs') @ Separator # c) - 1) = length (Separator # joinc cs')"
      by simp
    then have "take (backtrack (Separator # joinc cs) 1 (length (Separator # joinc cs) - 1))
             (Separator # joinc cs) = Separator # joinc cs'"
      unfolding b by simp
    with n' show ?thesis by blast
  qed
qed

lemma clean_form_unrooted_pop:
  assumes "list_all normal cs"
    and "length (joinc (replicate k ''..'' @ cs)) > length (joinc (replicate k ''..''))"
  shows "\<exists>cs'. list_all normal cs' \<and>
           take (backtrack (joinc (replicate k ''..'' @ cs)) (length (joinc (replicate k ''..'')))
                   (length (joinc (replicate k ''..'' @ cs)) - 1))
             (joinc (replicate k ''..'' @ cs)) = joinc (replicate k ''..'' @ cs')"
proof -
  let ?d = "replicate k ''..''"
  from assms(2) have "cs \<noteq> []" by auto
  then obtain cs' c where cs: "cs = cs' @ [c]" by (metis rev_exhaust)
  with assms(1) have n': "list_all normal cs'" and nc: "normal c" by auto
  from nc have sf: "Separator \<notin> set c" and ne: "c \<noteq> []" by (auto simp: normal_def)
  show ?thesis
  proof (cases "?d @ cs' = []")
    case True
    then have k: "?d = []" and c': "cs' = []" by auto
    then have b: "joinc (?d @ cs) = [] @ c" using cs by simp
    from backtrack_only_component [OF sf ne, of "[]"]
    have "backtrack ([] @ c) 0 (length ([] @ c) - 1) = 0" by simp
    then have "take (backtrack (joinc (?d @ cs)) (length (joinc ?d)) (length (joinc (?d @ cs)) - 1))
             (joinc (?d @ cs)) = joinc (?d @ [])"
      unfolding b using k by simp
    then show ?thesis by (intro exI [of _ "[]"]) simp
  next
    case False
    have "joinc (?d @ cs) = joinc ((?d @ cs') @ [c])" using cs by simp
    also have "\<dots> = joinc (?d @ cs') @ Separator # c"
      using False by (simp only: joinc_snoc if_False)
    finally have b: "joinc (?d @ cs) = joinc (?d @ cs') @ Separator # c" .
    have le: "length (joinc ?d) \<le> length (joinc (?d @ cs'))" by (rule joinc_append_length)
    from backtrack_last_component [OF sf le]
    have "take (backtrack (joinc (?d @ cs)) (length (joinc ?d)) (length (joinc (?d @ cs)) - 1))
             (joinc (?d @ cs)) = joinc (?d @ cs')"
      unfolding b by simp
    with n' show ?thesis by blast
  qed
qed

lemma clean_step_skip:
  "c = Separator \<or> c = CHR ''.'' \<and> at_element_end rest \<Longrightarrow>
   clean_step rooted c rest buf dotdot = (rest, buf, dotdot)"
  unfolding clean_step_def by (cases "c = Separator") simp_all

lemma clean_step_up:
  "c \<noteq> Separator \<Longrightarrow> \<not> (c = CHR ''.'' \<and> at_element_end rest) \<Longrightarrow>
   c = CHR ''.'' \<and> take 1 rest = ''.'' \<and> at_element_end (tl rest) \<Longrightarrow>
   clean_step rooted c rest buf dotdot =
     (if length buf > dotdot then
        (tl rest, take (backtrack buf dotdot (length buf - 1)) buf, dotdot)
      else if \<not> rooted then
        (tl rest,
         (if length buf > 0 then buf @ [Separator] else buf) @ ''..'',
         length ((if length buf > 0 then buf @ [Separator] else buf) @ ''..''))
      else (tl rest, buf, dotdot))"
  unfolding clean_step_def by (simp only: if_False if_True simp_thms)

lemma clean_step_elem:
  "c \<noteq> Separator \<Longrightarrow> \<not> (c = CHR ''.'' \<and> at_element_end rest) \<Longrightarrow>
   \<not> (c = CHR ''.'' \<and> take 1 rest = ''.'' \<and> at_element_end (tl rest)) \<Longrightarrow>
   clean_step rooted c rest buf dotdot =
     (dropWhile (\<lambda>x. x \<noteq> Separator) rest,
      (if rooted \<and> length buf \<noteq> 1 \<or> \<not> rooted \<and> length buf \<noteq> 0
       then buf @ [Separator] else buf)
      @ c # takeWhile (\<lambda>x. x \<noteq> Separator) rest,
      dotdot)"
  unfolding clean_step_def by (simp only: if_False simp_thms)

lemma clean_form_rootedI:
  "list_all normal cs \<Longrightarrow> clean_form True (Separator # joinc cs) 1"
  unfolding clean_form_def by auto

lemma clean_form_unrootedI:
  "list_all normal cs \<Longrightarrow>
   clean_form False (joinc (replicate k ''..'' @ cs)) (length (joinc (replicate k ''..'')))"
  unfolding clean_form_def by auto

lemma clean_step_form:
  assumes f: "clean_form rooted buf dotdot"
    and st: "clean_step rooted c rest buf dotdot = (rest', buf', dotdot')"
  shows "clean_form rooted buf' dotdot'"
proof -
  consider (skip) "c = Separator \<or> c = CHR ''.'' \<and> at_element_end rest"
    | (up) "c \<noteq> Separator" "\<not> (c = CHR ''.'' \<and> at_element_end rest)"
        "c = CHR ''.'' \<and> take 1 rest = ''.'' \<and> at_element_end (tl rest)"
    | (elem) "c \<noteq> Separator" "\<not> (c = CHR ''.'' \<and> at_element_end rest)"
        "\<not> (c = CHR ''.'' \<and> take 1 rest = ''.'' \<and> at_element_end (tl rest))"
    by blast
  then show ?thesis
  proof cases
    case skip
    from clean_step_skip [OF skip, of rooted buf dotdot] st
    have "buf' = buf" "dotdot' = dotdot" by simp_all
    with f show ?thesis by simp
  next
    case up
    note su = clean_step_up [OF up, of rooted buf dotdot]
    show ?thesis
    proof (cases rooted)
      case True
      with f obtain cs where cs: "list_all normal cs" "buf = Separator # joinc cs" "dotdot = 1"
        by (auto simp: clean_form_def)
      show ?thesis
      proof (cases "length buf > dotdot")
        case gt: True
        with su st have b': "buf' = take (backtrack buf dotdot (length buf - 1)) buf"
          and d': "dotdot' = dotdot" by simp_all
        from gt cs have "length (Separator # joinc cs) > 1" by simp
        from clean_form_rooted_pop [OF cs(1) this] b' d' cs True
        show ?thesis using clean_form_rootedI by auto
      next
        case False
        with su st True have "buf' = buf" "dotdot' = dotdot" by simp_all
        with f show ?thesis by simp
      qed
    next
      case False
      with f obtain k cs where cs: "list_all normal cs" "buf = joinc (replicate k ''..'' @ cs)"
        "dotdot = length (joinc (replicate k ''..''))"
        by (auto simp: clean_form_def)
      show ?thesis
      proof (cases "length buf > dotdot")
        case gt: True
        with su st have b': "buf' = take (backtrack buf dotdot (length buf - 1)) buf"
          and d': "dotdot' = dotdot" by simp_all
        from gt cs have "length (joinc (replicate k ''..'' @ cs))
            > length (joinc (replicate k ''..''))" by simp
        from clean_form_unrooted_pop [OF cs(1) this] b' d' cs False
        show ?thesis using clean_form_unrootedI by auto
      next
        case le: False
        have "cs = []"
        proof (rule ccontr)
          assume "cs \<noteq> []"
          then obtain cs' c where c: "cs = cs' @ [c]" by (metis rev_exhaust)
          with cs(1) have "c \<noteq> []" by (auto simp: normal_def)
          have "joinc (replicate k ''..'' @ cs) = joinc ((replicate k ''..'' @ cs') @ [c])"
            using c by simp
          then have "length (joinc (replicate k ''..'' @ cs))
              > length (joinc (replicate k ''..'' @ cs'))"
            using \<open>c \<noteq> []\<close> by (simp only: joinc_snoc) (auto split: if_splits)
          moreover have "length (joinc (replicate k ''..''))
              \<le> length (joinc (replicate k ''..'' @ cs'))" by (rule joinc_append_length)
          ultimately show False using le cs by simp
        qed
        with cs have b: "buf = joinc (replicate k ''..'')" by simp
        from su st False le have
          b': "buf' = (if length buf > 0 then buf @ [Separator] else buf) @ ''..''"
          and d': "dotdot' = length buf'" by auto
        have e: "buf = [] \<longleftrightarrow> replicate k ''..'' = []"
          unfolding b by (rule joinc_empty [OF dotdots_not_empty])
        have "joinc (replicate (Suc k) ''..'') = joinc (replicate k ''..'' @ [''..''])"
          by (simp add: replicate_append_same)
        also have "\<dots> = buf'" unfolding b' using e b by (simp only: joinc_snoc) auto
        finally have "buf' = joinc (replicate (Suc k) ''..'' @ [])" by simp
        with d' False show ?thesis
          using clean_form_unrootedI [of "[]" "Suc k"] by simp
      qed
    qed
  next
    case elem
    let ?e = "c # takeWhile (\<lambda>x. x \<noteq> Separator) rest"
    have ne: "normal ?e" by (rule real_element_normal [OF elem])
    from clean_step_elem [OF elem, of rooted buf dotdot] st have
      b': "buf' = (if rooted \<and> length buf \<noteq> 1 \<or> \<not> rooted \<and> length buf \<noteq> 0
                   then buf @ [Separator] else buf) @ ?e"
      and d': "dotdot' = dotdot" by simp_all
    show ?thesis
    proof (cases rooted)
      case True
      with f obtain cs where cs: "list_all normal cs" "buf = Separator # joinc cs" "dotdot = 1"
        by (auto simp: clean_form_def)
      have "length buf \<noteq> 1 \<longleftrightarrow> cs \<noteq> []"
        using cs joinc_empty [OF normal_not_empty [OF cs(1)]] by auto
      then have "buf' = Separator # joinc (cs @ [?e])"
        unfolding b' using True cs(2) by (simp only: joinc_snoc) auto
      moreover have "list_all normal (cs @ [?e])" using cs(1) ne by simp
      ultimately show ?thesis using True d' cs(3) clean_form_rootedI by simp
    next
      case False
      with f obtain k cs where cs: "list_all normal cs" "buf = joinc (replicate k ''..'' @ cs)"
        "dotdot = length (joinc (replicate k ''..''))"
        by (auto simp: clean_form_def)
      have "list_all (\<lambda>c. c \<noteq> []) (replicate k ''..'' @ cs)"
        using dotdots_not_empty normal_not_empty [OF cs(1)] by simp
      from joinc_empty [OF this] cs(2)
      have "length buf \<noteq> 0 \<longleftrightarrow> replicate k ''..'' @ cs \<noteq> []" by simp
      then have "buf' = joinc ((replicate k ''..'' @ cs) @ [?e])"
        unfolding b' using False cs(2) by (simp only: joinc_snoc) auto
      then have "buf' = joinc (replicate k ''..'' @ (cs @ [?e]))" by simp
      moreover have "list_all normal (cs @ [?e])" using cs(1) ne by simp
      ultimately show ?thesis using False d' cs(3) clean_form_unrootedI by simp
    qed
  qed
qed

lemma clean_loop_form:
  "clean_form rooted buf dotdot \<Longrightarrow>
   \<exists>dotdot'. clean_form rooted (clean_loop rooted path buf dotdot) dotdot'"
proof (induction path arbitrary: buf dotdot rule: length_induct)
  case (1 path)
  show ?case
  proof (cases path)
    case Nil
    then show ?thesis using 1(2) by auto
  next
    case (Cons c rest)
    obtain rest' buf' dotdot' where st: "clean_step rooted c rest buf dotdot = (rest', buf', dotdot')"
      by (cases "clean_step rooted c rest buf dotdot") auto
    have f: "clean_form rooted buf' dotdot'" by (rule clean_step_form [OF 1(2) st])
    have "length rest' \<le> length rest"
      using clean_step_length [of rooted c rest buf dotdot] st by simp
    then have "length rest' < length path" using Cons by simp
    with 1(1) f have "\<exists>d. clean_form rooted (clean_loop rooted rest' buf' dotdot') d" by blast
    then show ?thesis using Cons st by simp
  qed
qed

text \<open>Reading a path that is already clean.\<close>

lemma clean_loop_Separator:
  "clean_loop rooted (Separator # t) buf dotdot = clean_loop rooted t buf dotdot"
  by (simp add: clean_step_skip)

lemma clean_loop_normal:
  assumes n: "normal c" and t: "at_element_end t"
  shows "clean_loop rooted (c @ t) buf dotdot =
           clean_loop rooted t
             ((if rooted \<and> length buf \<noteq> 1 \<or> \<not> rooted \<and> length buf \<noteq> 0
               then buf @ [Separator] else buf) @ c) dotdot"
proof -
  from n obtain x xs where c: "c = x # xs" by (cases c) (auto simp: normal_def)
  from n c have sf: "x \<noteq> Separator" "Separator \<notin> set xs" by (auto simp: normal_def)
  have tw: "takeWhile (\<lambda>x. x \<noteq> Separator) (xs @ t) = xs"
    using sf(2) t by (cases t) (auto simp: takeWhile_append)
  have dw: "dropWhile (\<lambda>x. x \<noteq> Separator) (xs @ t) = t"
    using sf(2) t by (cases t) (auto simp: dropWhile_append)
  have e: "at_element_end (xs @ t) \<longleftrightarrow> xs = []"
    using sf(2) t by (cases xs) auto
  have a: "\<not> (x = CHR ''.'' \<and> at_element_end (xs @ t))"
    using n c e by (auto simp: normal_def)
  have b: "\<not> (x = CHR ''.'' \<and> take 1 (xs @ t) = ''.'' \<and> at_element_end (tl (xs @ t)))"
  proof
    assume h: "x = CHR ''.'' \<and> take 1 (xs @ t) = ''.'' \<and> at_element_end (tl (xs @ t))"
    from a h have "xs \<noteq> []" using e by simp
    then obtain y ys where xs: "xs = y # ys" by (cases xs) auto
    with h have y: "y = CHR ''.''" and "at_element_end (ys @ t)" by auto
    then have "ys = []" using sf(2) xs t by (cases ys) auto
    with h y xs c n show False by (simp add: normal_def)
  qed
  from clean_step_elem [OF sf(1) a b, of rooted buf dotdot] c tw dw
  show ?thesis by simp
qed

lemma joinc_at_element_end: "at_element_end (if cs = [] then [] else Separator # joinc cs)"
  by simp

lemma clean_loop_rooted_clean:
  "list_all normal cs \<Longrightarrow> list_all normal pre \<Longrightarrow>
   clean_loop True (joinc cs) (Separator # joinc pre) 1 = Separator # joinc (pre @ cs)"
proof (induction cs arbitrary: pre)
  case Nil
  then show ?case by simp
next
  case (Cons c cs)
  from Cons.prems have nc: "normal c" and ncs: "list_all normal cs" by auto
  let ?t = "if cs = [] then [] else Separator # joinc cs"
  have j: "joinc (c # cs) = c @ ?t" by (simp add: joinc_Cons)
  have l1: "length (Separator # joinc pre) \<noteq> 1 \<longleftrightarrow> pre \<noteq> []"
    using joinc_empty [OF normal_not_empty [OF Cons.prems(2)]] by auto
  have b: "(if length (Separator # joinc pre) \<noteq> 1 then (Separator # joinc pre) @ [Separator]
            else Separator # joinc pre) @ c = Separator # joinc (pre @ [c])"
    using l1 by (simp only: joinc_snoc) auto
  have "clean_loop True (joinc (c # cs)) (Separator # joinc pre) 1 =
        clean_loop True ?t (Separator # joinc (pre @ [c])) 1"
    unfolding j using clean_loop_normal [OF nc joinc_at_element_end, of True cs "Separator # joinc pre" 1] b
    by simp
  also have "\<dots> = clean_loop True (joinc cs) (Separator # joinc (pre @ [c])) 1"
    by (cases "cs = []") (simp_all add: clean_loop_Separator del: clean_loop.simps)
  also have "\<dots> = Separator # joinc ((pre @ [c]) @ cs)"
    by (rule Cons.IH [OF ncs]) (use Cons.prems nc in simp)
  finally show ?case by simp
qed

lemma Clean_rooted_clean:
  assumes "list_all normal cs"
  shows "Clean (Separator # joinc cs) = Separator # joinc cs"
  using clean_loop_rooted_clean [OF assms, of "[]"]
  by (simp add: Clean_def)

lemma clean_loop_dotdot:
  assumes t: "at_element_end t" and le: "\<not> length buf > dotdot"
  shows "clean_loop False (''..'' @ t) buf dotdot =
           clean_loop False t ((if length buf > 0 then buf @ [Separator] else buf) @ ''..'')
             (length ((if length buf > 0 then buf @ [Separator] else buf) @ ''..''))"
proof -
  have a: "CHR ''.'' \<noteq> Separator" by (simp add: Separator_def)
  have b: "\<not> (CHR ''.'' = CHR ''.'' \<and> at_element_end (CHR ''.'' # t))"
    by (simp add: Separator_def)
  have c: "CHR ''.'' = CHR ''.'' \<and> take 1 (CHR ''.'' # t) = ''.'' \<and>
           at_element_end (tl (CHR ''.'' # t))" using t by simp
  from clean_step_up [OF a b c, of False buf dotdot] le
  show ?thesis by simp
qed

lemma clean_loop_unrooted_clean:
  "list_all normal cs \<Longrightarrow> list_all (\<lambda>c. c \<noteq> []) pre \<Longrightarrow>
   clean_loop False (joinc cs) (joinc pre) dotdot = joinc (pre @ cs)"
proof (induction cs arbitrary: pre)
  case Nil
  then show ?case by simp
next
  case (Cons c cs)
  from Cons.prems have nc: "normal c" and ncs: "list_all normal cs" by auto
  let ?t = "if cs = [] then [] else Separator # joinc cs"
  have j: "joinc (c # cs) = c @ ?t" by (simp add: joinc_Cons)
  have l0: "length (joinc pre) \<noteq> 0 \<longleftrightarrow> pre \<noteq> []"
    using joinc_empty [OF Cons.prems(2)] by auto
  have b: "(if length (joinc pre) \<noteq> 0 then joinc pre @ [Separator] else joinc pre) @ c
             = joinc (pre @ [c])"
    using l0 by (simp only: joinc_snoc) auto
  have ne: "list_all (\<lambda>c. c \<noteq> []) (pre @ [c])"
    using Cons.prems(2) nc by (simp add: normal_def)
  have "clean_loop False (joinc (c # cs)) (joinc pre) dotdot =
        clean_loop False ?t (joinc (pre @ [c])) dotdot"
    unfolding j using clean_loop_normal [OF nc joinc_at_element_end, of False cs "joinc pre" dotdot] b
    by simp
  also have "\<dots> = clean_loop False (joinc cs) (joinc (pre @ [c])) dotdot"
    by (cases "cs = []") (simp_all add: clean_loop_Separator del: clean_loop.simps)
  also have "\<dots> = joinc ((pre @ [c]) @ cs)"
    by (rule Cons.IH [OF ncs ne])
  finally show ?case by simp
qed

lemma clean_loop_dotdots_clean:
  "list_all normal cs \<Longrightarrow>
   clean_loop False (joinc (replicate k ''..'' @ cs)) (joinc (replicate i ''..''))
     (length (joinc (replicate i ''..''))) = joinc (replicate (i + k) ''..'' @ cs)"
proof (induction k arbitrary: i)
  case 0
  then show ?case using clean_loop_unrooted_clean [OF 0 dotdots_not_empty] by simp
next
  case (Suc k)
  let ?tail = "replicate k ''..'' @ cs"
  let ?t = "if ?tail = [] then [] else Separator # joinc ?tail"
  let ?buf = "joinc (replicate i ''..'')"
  have j: "joinc (replicate (Suc k) ''..'' @ cs) = ''..'' @ ?t"
    by (simp add: joinc_Cons)
  have e: "?buf = [] \<longleftrightarrow> replicate i ''..'' = []"
    by (rule joinc_empty [OF dotdots_not_empty])
  have "joinc (replicate (Suc i) ''..'') = joinc (replicate i ''..'' @ [''..''])"
    by (simp add: replicate_append_same)
  also have "\<dots> = (if length ?buf > 0 then ?buf @ [Separator] else ?buf) @ ''..''"
    using e by (simp only: joinc_snoc) auto
  finally have b: "(if length ?buf > 0 then ?buf @ [Separator] else ?buf) @ ''..''
      = joinc (replicate (Suc i) ''..'')" by simp
  let ?X = "(if length ?buf > 0 then ?buf @ [Separator] else ?buf) @ ''..''"
  have "clean_loop False (''..'' @ ?t) ?buf (length ?buf) = clean_loop False ?t ?X (length ?X)"
    by (rule clean_loop_dotdot) simp_all
  then have "clean_loop False (joinc (replicate (Suc k) ''..'' @ cs)) ?buf (length ?buf) =
        clean_loop False ?t (joinc (replicate (Suc i) ''..''))
          (length (joinc (replicate (Suc i) ''..'')))"
    unfolding j b .
  also have "\<dots> = clean_loop False (joinc ?tail) (joinc (replicate (Suc i) ''..''))
          (length (joinc (replicate (Suc i) ''..'')))"
    by (cases "?tail = []") (simp_all add: clean_loop_Separator del: clean_loop.simps)
  also have "\<dots> = joinc (replicate (Suc i + k) ''..'' @ cs)"
    by (rule Suc.IH [OF Suc.prems])
  finally show ?case by simp
qed

lemma joinc_hd:
  assumes "list_all normal cs" and "joinc (replicate k ''..'' @ cs) \<noteq> []"
  shows "hd (joinc (replicate k ''..'' @ cs)) \<noteq> Separator"
proof (cases k)
  case 0
  with assms(2) obtain c cs' where c: "cs = c # cs'" by (cases cs) auto
  with assms(1) have "normal c" by simp
  then have "c \<noteq> []" "hd c \<noteq> Separator" by (cases c; auto simp: normal_def)+
  then show ?thesis using 0 c by (simp add: joinc_Cons)
next
  case (Suc n)
  then have "hd (joinc (replicate k ''..'' @ cs)) = CHR ''.''" by (simp add: joinc_Cons)
  then show ?thesis by (simp add: Separator_def)
qed

lemma Clean_unrooted_clean:
  assumes "list_all normal cs" and "joinc (replicate k ''..'' @ cs) \<noteq> []"
  shows "Clean (joinc (replicate k ''..'' @ cs)) = joinc (replicate k ''..'' @ cs)"
  using clean_loop_dotdots_clean [OF assms(1), of k 0] joinc_hd [OF assms] assms(2)
  by (simp add: Clean_def)

lemma Clean_dot: "Clean ''.'' = ''.''"
  by (simp add: Clean_def clean_step_skip Separator_def)

lemma Clean_idempotent: "Clean (Clean p) = Clean p"
proof (cases "p = []")
  case True
  then show ?thesis using Clean_dot by (simp add: Clean_def)
next
  case False
  show ?thesis
  proof (cases "hd p = Separator")
    case True
    let ?buf = "clean_loop True (tl p) [Separator] 1"
    have "clean_form True [Separator] 1" using clean_form_rootedI [of "[]"] by simp
    from clean_loop_form [OF this, of "tl p"]
    obtain cs where cs: "list_all normal cs" "?buf = Separator # joinc cs"
      by (auto simp: clean_form_def)
    then have "Clean p = Separator # joinc cs" using False True by (simp add: Clean_def)
    then show ?thesis using Clean_rooted_clean [OF cs(1)] by simp
  next
    case unrooted: False
    let ?buf = "clean_loop False p [] 0"
    have "clean_form False [] 0" using clean_form_unrootedI [of "[]" 0] by simp
    from clean_loop_form [OF this, of p]
    obtain k cs where cs: "list_all normal cs" "?buf = joinc (replicate k ''..'' @ cs)"
      by (auto simp: clean_form_def)
    show ?thesis
    proof (cases "?buf = []")
      case True
      then have "Clean p = ''.''" using False unrooted by (simp add: Clean_def)
      then show ?thesis using Clean_dot by simp
    next
      case nonempty: False
      then have "Clean p = joinc (replicate k ''..'' @ cs)"
        using False unrooted cs(2) by (simp add: Clean_def)
      then show ?thesis using Clean_unrooted_clean [OF cs(1)] nonempty cs(2) by simp
    qed
  qed
qed

section \<open>Properties of the single module resolver\<close>

lemma Clean_not_empty: "Clean p \<noteq> []"
  by (simp add: Clean_def Let_def)

lemma metadata_loop_find:
  "metadata_loop root name entries =
     (case find (\<lambda>m. Key m = name) entries of
        None \<Rightarrow> []
      | Some m \<Rightarrow> Clean (Join [root, Dir m]))"
  by (induction entries) simp_all

lemma resolve_modulePath_metadata:
  assumes "moduleMetadata e = Some entries"
    and "find (\<lambda>m. Key m = getModuleKeyName (moduleName e) (Label b)) entries = Some m"
  shows "resolve_modulePath e b src = Inr (Clean (Join [projectRootPath e, Dir m]))"
  using assms by (simp add: resolve_modulePath_def metadata_loop_find Clean_not_empty)

lemma resolve_modulePath_no_metadata:
  assumes "moduleMetadata e = None \<or>
           (\<exists>entries. moduleMetadata e = Some entries \<and>
              find (\<lambda>m. Key m = getModuleKeyName (moduleName e) (Label b)) entries = None)"
  shows "resolve_modulePath e b src =
           (if \<not> HasPrefix src ''./'' \<and> \<not> HasPrefix src ''../''
            then Inl (ModuleLoadError src Missing_source_code)
            else Inr (Join [modulePath e, src]))"
  using assms by (auto simp: resolve_modulePath_def metadata_loop_find Separator_def)

lemma example_key: "getModuleKeyName ''root'' ''x'' = ''x''"
  by (simp add: getModuleKeyName_def)

lemma example_vendor_x: "Clean (Join [''/proj'', ''vendor/x'']) = ''/proj/vendor/x''"
  by code_simp

lemma example_vendor_y: "Clean (Join [''/proj'', ''vendor/y'']) = ''/proj/vendor/y''"
  by code_simp

lemma example_shared: "Join [''/proj/modules/a'', ''../shared''] = ''/proj/modules/shared''"
  by code_simp

lemma example_child: "Join [''modules'', ''./child''] = ''modules/child''"
  by code_simp

text \<open>The loop over the attributes leaves the source empty when every attribute called
  \<open>source\<close> is the empty string or not of type string.\<close>

lemma source_loop_empty:
  "\<forall>a\<in>set attrs. fst a = ''source'' \<longrightarrow> (snd a = String_val [] \<or> \<not> is_String (snd a))
   \<Longrightarrow> source_loop attrs [] = Returns []"
proof (induction attrs)
  case Nil
  then show ?case by simp
next
  case (Cons a attrs)
  obtain n v where a: "a = (n, v)" by (cases a)
  from Cons.prems have rest: "\<forall>a\<in>set attrs. fst a = ''source'' \<longrightarrow>
      (snd a = String_val [] \<or> \<not> is_String (snd a))" by simp
  from Cons.prems a have hd: "n = ''source'' \<longrightarrow> (v = String_val [] \<or> \<not> is_String v)"
    by simp
  show ?case
  proof (cases "n = ''source'' \<and> is_String v")
    case True
    with hd have "v = String_val []" by auto
    then show ?thesis using a True Cons.IH [OF rest] by simp
  next
    case False
    then show ?thesis using a Cons.IH [OF rest] by auto
  qed
qed

text \<open>The loop panics exactly when some attribute called \<open>source\<close> is the null or an
  unknown string.\<close>

lemma source_loop_Panics:
  "source_loop attrs src = Panics \<longleftrightarrow>
     (\<exists>a\<in>set attrs. fst a = ''source'' \<and> (snd a = Null_string_val \<or> snd a = Unknown_string_val))"
proof (induction attrs arbitrary: src)
  case Nil
  then show ?case by simp
next
  case (Cons a attrs)
  obtain n v where a: "a = (n, v)" by (cases a)
  show ?case using a Cons.IH by (cases v) auto
qed

lemma loadModule_Returns:
  "Label b \<noteq> [] \<Longrightarrow> source_loop (Attributes b) [] = Returns src \<Longrightarrow>
   loadModule w e b stop = Returns (load_source w e b src stop)"
  by (simp add: loadModule_def)

lemma loadModule_Panics: "loadModule w e b stop = Panics \<longleftrightarrow> panics_on b"
  by (cases "source_loop (Attributes b) []") (auto simp: loadModule_def panics_on_def)

lemma loadModule_cases:
  assumes "loadModule w e b stop = Returns r" and "Label b \<noteq> []"
  obtains src where "source_loop (Attributes b) [] = Returns src"
    and "r = load_source w e b src stop"
  using assms by (cases "source_loop (Attributes b) []") (auto simp: loadModule_def)

lemma example_source: "source_loop (Attributes (example_block l src)) [] = Returns src"
  by (simp add: example_block_def)

lemma example_label: "Label (example_block l src) = l"
  by (simp add: example_block_def)

lemma example_metadata:
  "moduleMetadata example_evaluator = Some [\<lparr> Key = ''x'', Dir = ''vendor/x'' \<rparr>]"
  by (simp add: example_evaluator_def)

lemma example_no_entry:
  "l \<noteq> ''x'' \<Longrightarrow> \<not> MatchString l \<Longrightarrow>
   find (\<lambda>m. Key m = getModuleKeyName (moduleName example_evaluator) (Label (example_block l src)))
     [\<lparr> Key = ''x'', Dir = ''vendor/x'' \<rparr>] = None"
  by (simp add: example_evaluator_def example_label getModuleKeyName_def
      ReplaceAllString_no_match)

lemma example_shared_blocks:
  "getModuleBlocks example_world b ''/proj/modules/shared'' False =
     ([New (HclBlock ''resource'') NewContext b, New (HclBlock ''output'') NewContext b],
      [Ignore ''main-ignore'', Ignore ''outputs-ignore''], None,
      [Warning_HCL_error (ExtError ''syntax error'')])"
  by (simp add: getModuleBlocks_def example_world_def example_directory_def example_parser_def)

lemma resolve_modulePath_cases:
  assumes "resolve_modulePath e b src = Inr dir" and "src \<noteq> []"
  shows "(\<exists>m::ModuleMetadataEntry. dir = Clean (Join [projectRootPath e, Dir m])) \<or>
         dir = Join [modulePath e, src]"
proof (cases "moduleMetadata e")
  case None
  with assms show ?thesis
    by (auto simp: resolve_modulePath_def split: if_splits simp del: Join.simps)
next
  case (Some entries)
  show ?thesis
  proof (cases "find (\<lambda>m. Key m = getModuleKeyName (moduleName e) (Label b)) entries")
    case None
    with Some assms show ?thesis
      by (auto simp: resolve_modulePath_def metadata_loop_find split: if_splits
          simp del: Join.simps)
  next
    case (Some m)
    from resolve_modulePath_metadata [OF \<open>moduleMetadata e = Some entries\<close> Some, of src] assms(1)
    have "dir = Clean (Join [projectRootPath e, Dir m])" by (simp del: Join.simps)
    then show ?thesis by blast
  qed
qed

lemma getModuleBlocks_success_directory:
  "getModuleBlocks w b dir stop = (bs, igs, None, out) \<Longrightarrow> snd (LoadDirectory w dir stop) = None"
  by (cases "LoadDirectory w dir stop")
     (auto simp: getModuleBlocks_def split: option.splits)

lemma example_shared_loadModule:
  "loadModule example_world example_evaluator (example_block ''shared'' ''../shared'') False =
     Returns
       (Inr \<lparr> Name = ''shared'', Path = ''/proj/modules/shared'',
              Definition = example_block ''shared'' ''../shared'',
              Modules = [NewHCLModule ''/proj'' ''/proj/modules/shared''
                           [New (HclBlock ''resource'') NewContext
                              (example_block ''shared'' ''../shared''),
                            New (HclBlock ''output'') NewContext
                              (example_block ''shared'' ''../shared'')]
                           [Ignore ''main-ignore'', Ignore ''outputs-ignore'']] \<rparr>,
        [Warning_HCL_error (ExtError ''syntax error'')])"
proof -
  have "resolve_modulePath example_evaluator (example_block ''shared'' ''../shared'') ''../shared''
          = Inr ''/proj/modules/shared''"
    using example_shared
    by (simp add: resolve_modulePath_def example_evaluator_def example_label
        getModuleKeyName_def HasPrefix_def Separator_def newline_def del: Join.simps)
  then show ?thesis
    by (simp add: loadModule_def load_source_def load_directory_def example_label
        example_source example_shared_blocks example_evaluator_def)
qed

lemma example_null_loadModule:
  "loadModule w e example_null_block stop = Panics"
  by (simp add: loadModule_def example_null_block_def)


section \<open>Properties of the module-block loader\<close>

lemma loadModule_empty_label:
  "Label b = [] \<Longrightarrow>
   loadModule w e b stop = Returns (Inl (Module_without_label (MetadataRange b)), [])"
  by (simp add: loadModule_def)

lemma list_ex_source: "list_ex (\<lambda>fm. source fm = s) les \<longleftrightarrow> s \<in> set (map source les)"
  by (auto simp: list_ex_iff)

text \<open>One step of the loop, by what \<open>loadModule\<close> does on the block.\<close>

lemma loadModules_loop_skip:
  "Label b = [] \<Longrightarrow>
   loadModules_loop w e stop (b # rest) defs les out = loadModules_loop w e stop rest defs les out"
  by simp

lemma loadModules_loop_panic:
  "Label b \<noteq> [] \<Longrightarrow> loadModule w e b stop = Panics \<Longrightarrow>
   loadModules_loop w e stop (b # rest) defs les out = Panics"
  by simp

lemma loadModules_loop_success:
  "Label b \<noteq> [] \<Longrightarrow> loadModule w e b stop = Returns (Inr d, written) \<Longrightarrow>
   loadModules_loop w e stop (b # rest) defs les out =
     loadModules_loop w e stop rest (defs @ [d]) les (out @ written)"
  by simp

lemma loadModules_loop_load_error:
  "Label b \<noteq> [] \<Longrightarrow> loadModule w e b stop = Returns (Inl (Load_error le), written) \<Longrightarrow>
   loadModules_loop w e stop (b # rest) defs les out =
     loadModules_loop w e stop rest defs
       (if source le \<in> set (map source les) then les else les @ [le]) (out @ written)"
  by (simp add: list_ex_source)

lemma loadModules_loop_unreadable:
  "Label b \<noteq> [] \<Longrightarrow>
   loadModule w e b stop = Returns (Inl (Could_not_read_module_source r), written) \<Longrightarrow>
   loadModules_loop w e stop (b # rest) defs les out =
     loadModules_loop w e stop rest defs les
       (out @ written @ [Warning_failed_to_load_module (Could_not_read_module_source r)])"
  by simp

lemma loadModules_loop_unlabelled:
  "Label b \<noteq> [] \<Longrightarrow>
   loadModule w e b stop = Returns (Inl (Module_without_label r), written) \<Longrightarrow>
   loadModules_loop w e stop (b # rest) defs les out =
     loadModules_loop w e stop rest defs les
       (out @ written @ [Warning_failed_to_load_module (Module_without_label r)])"
  by simp

lemma loaded_Nil: "loaded w e stop [] = []"
  by (simp add: loaded_def map_filter_simps)

lemma loaded_Cons:
  "loaded w e stop (b # bs) =
     (case loadModule w e b stop of
        Returns (Inr d, written) \<Rightarrow> d # loaded w e stop bs
      | _ \<Rightarrow> loaded w e stop bs)"
  by (simp add: loaded_def map_filter_simps split: outcome.splits prod.splits sum.splits)

lemma failed_sources_Nil: "failed_sources w e stop [] = []"
  by (simp add: failed_sources_def map_filter_simps)

lemma failed_sources_Cons:
  "failed_sources w e stop (b # bs) =
     (case loadModule w e b stop of
        Returns (Inl (Load_error le), written) \<Rightarrow> source le # failed_sources w e stop bs
      | _ \<Rightarrow> failed_sources w e stop bs)"
  by (simp add: failed_sources_def map_filter_simps
      split: outcome.splits prod.splits sum.splits error.splits)

lemma written_for_skip: "Label b = [] \<Longrightarrow> written_for w e stop b = []"
  by (simp add: written_for_def)


lemma written_for_success:
  "Label b \<noteq> [] \<Longrightarrow> loadModule w e b stop = Returns (Inr d, written) \<Longrightarrow>
   written_for w e stop b = written"
  by (simp add: written_for_def)

lemma written_for_load_error:
  "Label b \<noteq> [] \<Longrightarrow> loadModule w e b stop = Returns (Inl (Load_error le), written) \<Longrightarrow>
   written_for w e stop b = written"
  by (simp add: written_for_def)

lemma written_for_unreadable:
  "Label b \<noteq> [] \<Longrightarrow>
   loadModule w e b stop = Returns (Inl (Could_not_read_module_source r), written) \<Longrightarrow>
   written_for w e stop b =
     written @ [Warning_failed_to_load_module (Could_not_read_module_source r)]"
  by (simp add: written_for_def)

lemma written_for_unlabelled:
  "Label b \<noteq> [] \<Longrightarrow>
   loadModule w e b stop = Returns (Inl (Module_without_label r), written) \<Longrightarrow>
   written_for w e stop b = written @ [Warning_failed_to_load_module (Module_without_label r)]"
  by (simp add: written_for_def)

text \<open>
  What the loop returns when it returns: the definitions of the blocks that load, in
  order, after those it started with; what each block wrote; load errors with pairwise
  different sources, for exactly the sources that failed.
\<close>

lemma loadModules_loop_Returns:
  assumes "loadModules_loop w e stop bs defs les out = Returns (defs', les', out')"
  shows "defs' = defs @ loaded w e stop bs \<and>
         out' = out @ concat (map (written_for w e stop) bs) \<and>
         set (map source les') = set (map source les) \<union> set (failed_sources w e stop bs) \<and>
         (distinct (map source les) \<longrightarrow> distinct (map source les'))"
  using assms
proof (induction bs arbitrary: defs les out)
  case Nil
  then show ?case by (simp add: loaded_Nil failed_sources_Nil)
next
  case (Cons b bs)
  show ?case
  proof (cases "Label b = []")
    case True
    with Cons.prems have "loadModules_loop w e stop bs defs les out = Returns (defs', les', out')"
      by simp
    from Cons.IH [OF this] True show ?thesis
      by (simp add: loaded_Cons failed_sources_Cons written_for_skip loadModule_empty_label)
  next
    case False
    show ?thesis
    proof (cases "loadModule w e b stop")
      case Panics
      with False Cons.prems show ?thesis by simp
    next
      case (Returns x)
      obtain r written where x: "x = (r, written)" by (cases x)
      show ?thesis
      proof (cases r)
        case (Inr d)
        with Returns x have lm: "loadModule w e b stop = Returns (Inr d, written)" by simp
        from Cons.prems loadModules_loop_success [OF False lm]
        have "loadModules_loop w e stop bs (defs @ [d]) les (out @ written)
                = Returns (defs', les', out')" by simp
        from Cons.IH [OF this] lm show ?thesis
          by (simp add: loaded_Cons failed_sources_Cons written_for_success [OF False lm])
      next
        case (Inl er)
        show ?thesis
        proof (cases er)
          case (Load_error le)
          with Returns x Inl
          have lm: "loadModule w e b stop = Returns (Inl (Load_error le), written)" by simp
          let ?les = "if source le \<in> set (map source les) then les else les @ [le]"
          from Cons.prems loadModules_loop_load_error [OF False lm]
          have "loadModules_loop w e stop bs defs ?les (out @ written)
                  = Returns (defs', les', out')" by simp
          from Cons.IH [OF this]
          have ih: "defs' = defs @ loaded w e stop bs"
            "out' = (out @ written) @ concat (map (written_for w e stop) bs)"
            "set (map source les') = set (map source ?les) \<union> set (failed_sources w e stop bs)"
            "distinct (map source ?les) \<longrightarrow> distinct (map source les')"
            by simp_all
          have d: "distinct (map source les) \<longrightarrow> distinct (map source ?les)" by auto
          have s: "set (map source ?les) = insert (source le) (set (map source les))" by auto
          from ih d s lm show ?thesis
            by (simp add: loaded_Cons failed_sources_Cons written_for_load_error [OF False lm])
        next
          case (Module_without_label r)
          with Returns x Inl
          have lm: "loadModule w e b stop = Returns (Inl (Module_without_label r), written)"
            by simp
          from Cons.prems loadModules_loop_unlabelled [OF False lm]
          have "loadModules_loop w e stop bs defs les
                  (out @ written @ [Warning_failed_to_load_module (Module_without_label r)])
                  = Returns (defs', les', out')" by simp
          from Cons.IH [OF this] lm show ?thesis
            by (simp add: loaded_Cons failed_sources_Cons written_for_unlabelled [OF False lm])
        next
          case (Could_not_read_module_source r)
          with Returns x Inl
          have lm: "loadModule w e b stop
                      = Returns (Inl (Could_not_read_module_source r), written)"
            by simp
          from Cons.prems loadModules_loop_unreadable [OF False lm]
          have "loadModules_loop w e stop bs defs les
                  (out @ written
                     @ [Warning_failed_to_load_module (Could_not_read_module_source r)])
                  = Returns (defs', les', out')" by simp
          from Cons.IH [OF this] lm show ?thesis
            by (simp add: loaded_Cons failed_sources_Cons written_for_unreadable [OF False lm])
        qed
      qed
    qed
  qed
qed

text \<open>The loop panics exactly when \<open>loadModule\<close> panics on one of the blocks.\<close>

lemma loadModules_loop_Panics:
  "loadModules_loop w e stop bs defs les out = Panics \<longleftrightarrow> (\<exists>b\<in>set bs. panics_on b)"
proof (induction bs arbitrary: defs les out)
  case Nil
  then show ?case by simp
next
  case (Cons b bs)
  show ?case
  proof (cases "Label b = []")
    case True
    then show ?thesis using Cons.IH by (simp add: panics_on_def)
  next
    case False
    show ?thesis
    proof (cases "loadModule w e b stop")
      case Panics
      then show ?thesis using False loadModule_Panics [of w e b stop] by simp
    next
      case (Returns x)
      then have np: "\<not> panics_on b" using loadModule_Panics [of w e b stop] by simp
      obtain r written where x: "x = (r, written)" by (cases x)
      show ?thesis
      proof (cases r)
        case (Inr d)
        then show ?thesis using Returns x False np Cons.IH by simp
      next
        case (Inl er)
        then show ?thesis using Returns x False np Cons.IH by (cases er) simp_all
      qed
    qed
  qed
qed

lemma loadModules_Panics:
  "loadModules w e stop = Panics \<longleftrightarrow>
     (\<exists>b\<in>set (expandBlocks w (OfType (blocks e) ''module'')). panics_on b)"
  using loadModules_loop_Panics [of w e stop "expandBlocks w (OfType (blocks e) ''module'')" "[]" "[]" "[]"]
  by (cases "loadModules_loop w e stop (expandBlocks w (OfType (blocks e) ''module'')) [] [] []")
     (auto simp: loadModules_def)

lemma loadModules_Returns:
  assumes "loadModules_loop w e stop (expandBlocks w (OfType (blocks e) ''module'')) [] [] []
             = Returns (defs, les, out)"
  shows "loadModules w e stop = Returns (defs, out @ report les)"
  using assms by (simp add: loadModules_def)

lemma loadModules_Returns_cases:
  assumes "loadModules w e stop = Returns (defs, written)"
  obtains les out where
    "loadModules_loop w e stop (expandBlocks w (OfType (blocks e) ''module'')) [] [] []
       = Returns (defs, les, out)"
    and "written = out @ report les"
  using assms
  by (cases "loadModules_loop w e stop (expandBlocks w (OfType (blocks e) ''module'')) [] [] []")
     (auto simp: loadModules_def)





lemma load_source_Inr:
  assumes "load_source w e b src stop = (Inr d, written)"
  shows "Name d = Label b \<and> Definition d = b"
proof -
  from assms obtain dir where "load_directory w e b src dir stop = (Inr d, written)"
    by (cases "resolve_modulePath e b src") (auto simp: load_source_def split: if_splits)
  then show ?thesis
    by (auto simp: load_directory_def split: prod.splits option.splits)
qed

lemma loadModule_Inr:
  assumes "loadModule w e b stop = Returns (Inr d, written)"
  shows "Label b \<noteq> [] \<and> Name d = Label b \<and> Definition d = b"
proof -
  from assms have l: "Label b \<noteq> []" by (auto simp: loadModule_def split: if_splits)
  from loadModule_cases [OF assms l] obtain src
    where "(Inr d, written) = load_source w e b src stop" by metis
  then have "load_source w e b src stop = (Inr d, written)" by simp
  from load_source_Inr [OF this] l show ?thesis by simp
qed

lemma loaded_set:
  "set (loaded w e stop bs) =
     {d. \<exists>b\<in>set bs. \<exists>written. loadModule w e b stop = Returns (Inr d, written)}"
proof (induction bs)
  case Nil
  then show ?case by (simp add: loaded_Nil)
next
  case (Cons b bs)
  show ?case
  proof (cases "loadModule w e b stop")
    case Panics
    then show ?thesis using Cons by (auto simp: loaded_Cons)
  next
    case (Returns x)
    obtain r written where x: "x = (r, written)" by (cases x)
    show ?thesis using Returns x Cons by (cases r) (auto simp: loaded_Cons)
  qed
qed

lemma failed_sources_set:
  "set (failed_sources w e stop bs) =
     {s. \<exists>b\<in>set bs. \<exists>c written.
            loadModule w e b stop = Returns (Inl (Load_error (ModuleLoadError s c)), written)}"
proof (induction bs)
  case Nil
  then show ?case by (simp add: failed_sources_Nil)
next
  case (Cons b bs)
  show ?case
  proof (cases "loadModule w e b stop")
    case Panics
    then show ?thesis using Cons by (auto simp: failed_sources_Cons)
  next
    case (Returns x)
    obtain r written where x: "x = (r, written)" by (cases x)
    show ?thesis
    proof (cases r)
      case (Inl er)
      show ?thesis
      proof (cases er)
        case (Load_error le)
        obtain s c where le: "le = ModuleLoadError s c" by (cases le)
        from Returns x Inl Load_error le Cons show ?thesis by (auto simp: failed_sources_Cons)
      qed (use Returns x Inl Cons in \<open>auto simp: failed_sources_Cons\<close>)
    next
      case (Inr d)
      then show ?thesis using Returns x Cons by (auto simp: failed_sources_Cons)
    qed
  qed
qed





lemma example_expanded:
  "expandBlocks example_world (OfType (blocks example_evaluator) ''module'') =
     [example_block ''x'' ''git::https://example.com/x'',
      example_block ''shared'' ''../shared'',
      example_block [] ''../shared'',
      example_block ''s3a'' ''s3::bucket/path'',
      example_block ''nosrc'' [],
      example_block ''s3b'' ''s3::bucket/path'']"
  by (simp add: example_world_def example_evaluator_def OfType_def example_block_def)

lemma example_x_loadModule:
  "loadModule example_world example_evaluator
     (example_block ''x'' ''git::https://example.com/x'') False
     = Returns (Inr example_x_definition, [])"
proof -
  have "resolve_modulePath example_evaluator (example_block ''x'' ''git::https://example.com/x'')
          ''git::https://example.com/x'' = Inr ''/proj/vendor/x''"
    using example_vendor_x
    by (simp add: resolve_modulePath_def example_evaluator_def example_label example_key
        del: Join.simps)
  moreover have "getModuleBlocks example_world (example_block ''x'' ''git::https://example.com/x'')
             ''/proj/vendor/x'' False =
           ([New (HclBlock ''resource'') NewContext
               (example_block ''x'' ''git::https://example.com/x'')],
            [Ignore ''main-ignore''], None, [])"
    by (simp add: getModuleBlocks_def example_world_def example_directory_def example_parser_def)
  ultimately show ?thesis
    by (simp add: loadModule_def load_source_def load_directory_def example_label
        example_source example_evaluator_def example_x_definition_def)
qed

lemma example_s3_loadModule:
  assumes "l \<noteq> []" and "l \<noteq> ''x''" and "\<not> MatchString l"
  shows "loadModule example_world example_evaluator (example_block l ''s3::bucket/path'') False =
           Returns (Inl (Load_error (ModuleLoadError ''s3::bucket/path'' Missing_source_code)), [])"
proof -
  have "resolve_modulePath example_evaluator (example_block l ''s3::bucket/path'')
          ''s3::bucket/path'' = Inl (ModuleLoadError ''s3::bucket/path'' Missing_source_code)"
    using assms
    by (simp add: resolve_modulePath_def example_evaluator_def example_label
        getModuleKeyName_def ReplaceAllString_no_match HasPrefix_def Separator_def)
  then show ?thesis using assms(1)
    by (simp add: loadModule_def load_source_def example_label example_source)
qed

lemma example_nosrc_loadModule:
  "loadModule example_world example_evaluator (example_block ''nosrc'' []) False =
     Returns (Inl (Could_not_read_module_source ''main.tf:1''), [])"
  by (simp add: loadModule_def load_source_def example_block_def)

lemma example_loadModules_loop:
  "loadModules_loop example_world example_evaluator False
     [example_block ''x'' ''git::https://example.com/x'',
      example_block ''shared'' ''../shared'',
      example_block [] ''../shared'',
      example_block ''s3a'' ''s3::bucket/path'',
      example_block ''nosrc'' [],
      example_block ''s3b'' ''s3::bucket/path''] [] [] [] =
   Returns
     ([example_x_definition, example_shared_definition],
      [ModuleLoadError ''s3::bucket/path'' Missing_source_code],
      [Warning_HCL_error (ExtError ''syntax error''),
       Warning_failed_to_load_module (Could_not_read_module_source ''main.tf:1'')])"
proof -
  have a: "loadModule example_world example_evaluator
             (example_block ''s3a'' ''s3::bucket/path'') False =
           Returns (Inl (Load_error (ModuleLoadError ''s3::bucket/path'' Missing_source_code)), [])"
    by (rule example_s3_loadModule) (simp_all add: newline_def)
  have b: "loadModule example_world example_evaluator
             (example_block ''s3b'' ''s3::bucket/path'') False =
           Returns (Inl (Load_error (ModuleLoadError ''s3::bucket/path'' Missing_source_code)), [])"
    by (rule example_s3_loadModule) (simp_all add: newline_def)
  have sh: "loadModule example_world example_evaluator
              (example_block ''shared'' ''../shared'') False =
            Returns (Inr example_shared_definition,
                     [Warning_HCL_error (ExtError ''syntax error'')])"
    using example_shared_loadModule by (simp add: example_shared_definition_def)
  note steps =
    loadModules_loop_success [OF _ example_x_loadModule]
    loadModules_loop_success [OF _ sh]
    loadModules_loop_skip [of "example_block [] ''../shared''"]
    loadModules_loop_load_error [OF _ a]
    loadModules_loop_unreadable [OF _ example_nosrc_loadModule]
    loadModules_loop_load_error [OF _ b]
  show ?thesis
    by (simp add: steps example_label del: loadModules_loop.simps(2))
qed

lemma example_loadModules:
  "loadModules example_world example_evaluator False =
   Returns
     ([example_x_definition, example_shared_definition],
      [Warning_HCL_error (ExtError ''syntax error''),
       Warning_failed_to_load_module (Could_not_read_module_source ''main.tf:1''),
       Warning_terraform_init,
       Failed_module_source ''s3::bucket/path''])"
  by (simp add: loadModules_def example_expanded example_loadModules_loop report_def
      del: loadModules_loop.simps)

text \<open>The example project with a module block whose source is the null string between
  two blocks that load.\<close>

lemma example_null_expanded:
  "expandBlocks example_world
     (OfType (blocks (example_evaluator
        \<lparr> blocks := [example_block ''shared'' ''../shared'', example_null_block,
                     example_block ''x'' ''git::https://example.com/x''] \<rparr>)) ''module'') =
     [example_block ''shared'' ''../shared'', example_null_block,
      example_block ''x'' ''git::https://example.com/x'']"
  by (simp add: example_world_def OfType_def example_block_def example_null_block_def)

text \<open>
  What holds of \<open>loadModules\<close> when it returns: the definitions returned are those of
  all the expanded blocks that \<open>loadModule\<close> loads, in order, whatever fails in
  between; and every block with a label is accounted for: its definition is returned,
  or its source is reported among the modules that failed to load, or its error is
  written as a warning.
\<close>

lemma loadModules_accounts_for_blocks:
  assumes "expandBlocks w (OfType (blocks e) ''module'') = expanded"
    and "loadModules w e stop = Returns (returned, written)"
  shows "returned = loaded w e stop expanded \<and>
         (\<forall>b\<in>set expanded. Label b \<noteq> [] \<longrightarrow>
            (case loadModule w e b stop of
               Returns (Inr d, wr) \<Rightarrow> d \<in> set returned
             | Returns (Inl (Load_error le), wr) \<Rightarrow>
                 Failed_module_source (source le) \<in> set written
             | Returns (Inl er, wr) \<Rightarrow> Warning_failed_to_load_module er \<in> set written
             | Panics \<Rightarrow> False))"
proof (intro conjI ballI impI)
  from loadModules_Returns_cases [OF assms(2)] assms(1) obtain les out where
    loop: "loadModules_loop w e stop expanded [] [] [] = Returns (returned, les, out)"
    and wr: "written = out @ report les" by metis
  note inv = loadModules_loop_Returns [OF loop]
  show "returned = loaded w e stop expanded" using inv by simp
  fix b
  assume b: "b \<in> set expanded" and l: "Label b \<noteq> []"
  have np: "loadModule w e b stop \<noteq> Panics"
    using loadModules_loop_Panics [of w e stop expanded "[]" "[]" "[]"] loop b
      loadModule_Panics [of w e b stop] by auto
  then obtain r wb where lm: "loadModule w e b stop = Returns (r, wb)"
    by (cases "loadModule w e b stop") auto
  have wf: "set (written_for w e stop b) \<subseteq> set written"
    using inv wr b by auto
  show "case loadModule w e b stop of
          Returns (Inr d, wr) \<Rightarrow> d \<in> set returned
        | Returns (Inl (Load_error le), wr) \<Rightarrow> Failed_module_source (source le) \<in> set written
        | Returns (Inl er, wr) \<Rightarrow> Warning_failed_to_load_module er \<in> set written
        | Panics \<Rightarrow> False"
  proof (cases r)
    case (Inr d)
    with lm b have "d \<in> set (loaded w e stop expanded)" unfolding loaded_set by blast
    then show ?thesis using Inr lm inv by simp
  next
    case (Inl er)
    show ?thesis
    proof (cases er)
      case (Load_error le)
      obtain s c where le: "le = ModuleLoadError s c" by (cases le)
      from lm Inl Load_error le b have "s \<in> set (failed_sources w e stop expanded)"
        unfolding failed_sources_set by blast
      then have "s \<in> set (map source les)" using inv by simp
      then have "les \<noteq> [] \<and>
          Failed_module_source s \<in> (\<lambda>le. Failed_module_source (source le)) ` set les"
        by auto
      then have "Failed_module_source s \<in> set (report les)" by (simp add: report_def)
      then show ?thesis using lm Inl Load_error le wr by simp
    next
      case (Module_without_label r')
      with lm Inl have lm': "loadModule w e b stop = Returns (Inl (Module_without_label r'), wb)"
        by simp
      from wf written_for_unlabelled [OF l lm'] show ?thesis using lm' by simp
    next
      case (Could_not_read_module_source r')
      with lm Inl
      have lm': "loadModule w e b stop = Returns (Inl (Could_not_read_module_source r'), wb)"
        by simp
      from wf written_for_unreadable [OF l lm'] show ?thesis using lm' by simp
    qed
  qed
qed

section \<open>Claims\<close>

text \<open>
  C1 (as amended). For every label \<open>L\<close> in which the index pattern matches nowhere
  (in particular every label without an opening bracket), the key resolver in context
  \<open>root\<close> returns \<open>L\<close> unchanged; in context \<open>root\<close> the label \<open>x[0][1]\<close> gives
  \<open>x\<close>; in context \<open>module.a:module.b[0]\<close> the label \<open>c\<close> gives \<open>a.b.c\<close>; and for
  every context and label the index pattern matches nowhere in the output, that is, the
  output holds no opening bracket followed on the same line by one or more characters
  and a closing bracket.
\<close>

theorem getModuleKeyName_strips_indexes:
  "(\<not> MatchString L \<longrightarrow> getModuleKeyName ''root'' L = L) \<and>
   (CHR ''['' \<notin> set L \<longrightarrow> getModuleKeyName ''root'' L = L) \<and>
   getModuleKeyName ''root'' ''x[0][1]'' = ''x'' \<and>
   getModuleKeyName ''module.a:module.b[0]'' ''c'' = ''a.b.c'' \<and>
   \<not> MatchString (getModuleKeyName ctx label)"
proof -
  have a: "\<not> MatchString L \<longrightarrow> getModuleKeyName ''root'' L = L"
    by (simp add: getModuleKeyName_def ReplaceAllString_no_match)
  have b: "CHR ''['' \<notin> set L \<longrightarrow> getModuleKeyName ''root'' L = L"
    using a no_open_bracket_no_match by blast
  have c: "getModuleKeyName ''root'' ''x[0][1]'' = ''x''"
    by (simp add: getModuleKeyName_def newline_def)
  have d: "getModuleKeyName ''module.a:module.b[0]'' ''c'' = ''a.b.c''"
    by (simp add: getModuleKeyName_def TrimPrefix_def HasPrefix_def newline_def)
  have e: "\<not> MatchString (getModuleKeyName ctx label)"
    unfolding getModuleKeyName_def by (simp add: MatchString_ReplaceAllString)
  from a b c d e show ?thesis by blast
qed

theorem getModuleKeyName_strips_indexes_witness:
  "\<not> MatchString ''web'' \<and> CHR ''['' \<notin> set ''web'' \<and>
   getModuleKeyName ''root'' ''web'' = ''web'' \<and>
   \<not> MatchString (getModuleKeyName ''module.net[0]'' ''web[1]'')"
  using getModuleKeyName_strips_indexes [of "''web''" "''module.net[0]''" "''web[1]''"]
  by simp

text \<open>
  The last sentence of C1 as first stated (the output never contains a bracket
  character) fails: the pattern needs at least one character between the brackets, so
  an empty pair is not a match and stays.
\<close>

theorem getModuleKeyName_brackets_counterexample:
  "\<not> (\<forall>ctx label.
        CHR ''['' \<notin> set (getModuleKeyName ctx label) \<and>
        CHR '']'' \<notin> set (getModuleKeyName ctx label))"
proof
  assume "\<forall>ctx label.
        CHR ''['' \<notin> set (getModuleKeyName ctx label) \<and>
        CHR '']'' \<notin> set (getModuleKeyName ctx label)"
  then have "CHR ''['' \<notin> set (getModuleKeyName ''root'' ''x[]'')" by blast
  then show False by (simp add: getModuleKeyName_def newline_def)
qed

text \<open>
  C2 (as amended). For a module block with a label and a non-empty string source, when
  metadata is supplied, the first entry in table order whose \<open>Key\<close> is the key
  resolver's output for the module name and the label decides the directory:
  \<open>Clean (Join [projectRootPath, Dir])\<close> of that entry. The directory is loaded from
  there whatever the source string is, and the result is never the "missing source
  code" load error of the relative-path check.
\<close>

theorem loadModule_metadata_priority:
  assumes "Label b \<noteq> []"
    and "source_loop (Attributes b) [] = Returns src" and "src \<noteq> []"
    and "moduleMetadata e = Some entries"
    and "find (\<lambda>m. Key m = getModuleKeyName (moduleName e) (Label b)) entries = Some m"
  shows "resolve_modulePath e b src = Inr (Clean (Join [projectRootPath e, Dir m])) \<and>
         loadModule w e b stop =
           Returns (load_directory w e b src (Clean (Join [projectRootPath e, Dir m])) stop) \<and>
         loadModule w e b stop \<noteq>
           Returns (Inl (Load_error (ModuleLoadError src Missing_source_code)), written)"
proof -
  let ?dir = "Clean (Join [projectRootPath e, Dir m])"
  have r: "resolve_modulePath e b src = Inr ?dir"
    using assms(4,5) by (rule resolve_modulePath_metadata)
  have l: "loadModule w e b stop = Returns (load_directory w e b src ?dir stop)"
    using assms(3) r loadModule_Returns [OF assms(1,2), of w e stop]
    by (simp add: load_source_def)
  have "fst (load_directory w e b src ?dir stop)
          \<noteq> Inl (Load_error (ModuleLoadError src Missing_source_code))"
    by (simp add: load_directory_def split: prod.splits option.splits)
  then have "load_directory w e b src ?dir stop
          \<noteq> (Inl (Load_error (ModuleLoadError src Missing_source_code)), written)"
    by auto
  with r l show ?thesis by simp
qed

theorem loadModule_metadata_priority_witness:
  "\<not> HasPrefix ''git::https://example.com/x'' ''./'' \<and>
   \<not> HasPrefix ''git::https://example.com/x'' ''../'' \<and>
   loadModule example_world example_evaluator
       (example_block ''x'' ''git::https://example.com/x'') False =
     Returns
       (Inr \<lparr> Name = ''x'', Path = ''/proj/vendor/x'',
              Definition = example_block ''x'' ''git::https://example.com/x'',
              Modules = [NewHCLModule ''/proj'' ''/proj/vendor/x''
                           [New (HclBlock ''resource'') NewContext
                              (example_block ''x'' ''git::https://example.com/x'')]
                           [Ignore ''main-ignore'']] \<rparr>, [])"
proof -
  have f: "find (\<lambda>m. Key m = getModuleKeyName (moduleName example_evaluator)
                (Label (example_block ''x'' ''git::https://example.com/x'')))
             [\<lparr> Key = ''x'', Dir = ''vendor/x'' \<rparr>] = Some \<lparr> Key = ''x'', Dir = ''vendor/x'' \<rparr>"
    by (simp add: example_evaluator_def example_label example_key)
  have g: "getModuleBlocks example_world (example_block ''x'' ''git::https://example.com/x'')
             ''/proj/vendor/x'' False =
           ([New (HclBlock ''resource'') NewContext
               (example_block ''x'' ''git::https://example.com/x'')],
            [Ignore ''main-ignore''], None, [])"
    by (simp add: getModuleBlocks_def example_world_def example_directory_def example_parser_def)
  from loadModule_metadata_priority
         [of "example_block ''x'' ''git::https://example.com/x''" "''git::https://example.com/x''"
             example_evaluator "[\<lparr> Key = ''x'', Dir = ''vendor/x'' \<rparr>]"
             "\<lparr> Key = ''x'', Dir = ''vendor/x'' \<rparr>" example_world False]
       f g example_metadata
  show ?thesis
    by (simp add: example_label example_source example_vendor_x load_directory_def
        HasPrefix_def example_evaluator_def del: Join.simps)
qed

text \<open>
  C2 as first stated (any entry of the table with the key gives the directory) fails
  when two entries have the key and different directories: the loop stops at the
  first.
\<close>

theorem resolve_modulePath_duplicate_key_counterexample:
  "\<not> (\<forall>e b src entries m.
        Label b \<noteq> [] \<and> src \<noteq> [] \<and> moduleMetadata e = Some entries \<and>
        m \<in> set entries \<and> Key m = getModuleKeyName (moduleName e) (Label b) \<longrightarrow>
        resolve_modulePath e b src = Inr (Clean (Join [projectRootPath e, Dir m])))"
proof
  let ?entries = "[\<lparr> Key = ''x'', Dir = ''vendor/x'' \<rparr>, \<lparr> Key = ''x'', Dir = ''vendor/y'' \<rparr>]"
  let ?e = "example_evaluator \<lparr> moduleMetadata := Some ?entries \<rparr>"
  let ?b = "example_block ''x'' ''git::https://example.com/x''"
  assume "\<forall>e b src entries m.
        Label b \<noteq> [] \<and> src \<noteq> [] \<and> moduleMetadata e = Some entries \<and>
        m \<in> set entries \<and> Key m = getModuleKeyName (moduleName e) (Label b) \<longrightarrow>
        resolve_modulePath e b src = Inr (Clean (Join [projectRootPath e, Dir m]))"
  then have "Label ?b \<noteq> [] \<and> ''git::https://example.com/x'' \<noteq> [] \<and>
        moduleMetadata ?e = Some ?entries \<and>
        \<lparr> Key = ''x'', Dir = ''vendor/y'' \<rparr> \<in> set ?entries \<and>
        Key \<lparr> Key = ''x'', Dir = ''vendor/y'' \<rparr> = getModuleKeyName (moduleName ?e) (Label ?b) \<longrightarrow>
        resolve_modulePath ?e ?b ''git::https://example.com/x'' =
          Inr (Clean (Join [projectRootPath ?e, Dir \<lparr> Key = ''x'', Dir = ''vendor/y'' \<rparr>]))"
    by blast
  moreover have "resolve_modulePath ?e ?b ''git::https://example.com/x'' = Inr ''/proj/vendor/x''"
    using example_vendor_x
    by (simp add: resolve_modulePath_def example_evaluator_def example_label example_key
        del: Join.simps)
  ultimately show False
    using example_vendor_y
    by (simp add: example_evaluator_def example_label example_key del: Join.simps)
qed

text \<open>
  C3. For a module block with a label and a non-empty string source, and no metadata
  entry for its key (no metadata at all, or none with the key): a source that starts
  with neither \<open>./\<close> nor \<open>../\<close> makes \<open>loadModule\<close> fail with the load error that
  carries the source and the cause "missing source code"; otherwise the directory is
  \<open>Join [modulePath, source]\<close>, and that is the directory loaded. The source
  \<open>../shared\<close> from \<open>/proj/modules/a\<close> gives \<open>/proj/modules/shared\<close>.
\<close>

theorem loadModule_local_fallback:
  assumes "Label b \<noteq> []"
    and "source_loop (Attributes b) [] = Returns src" and "src \<noteq> []"
    and "moduleMetadata e = None \<or>
         (\<exists>entries. moduleMetadata e = Some entries \<and>
            find (\<lambda>m. Key m = getModuleKeyName (moduleName e) (Label b)) entries = None)"
  shows "(\<not> HasPrefix src ''./'' \<and> \<not> HasPrefix src ''../'' \<longrightarrow>
            loadModule w e b stop =
              Returns (Inl (Load_error (ModuleLoadError src Missing_source_code)), [])) \<and>
         (HasPrefix src ''./'' \<or> HasPrefix src ''../'' \<longrightarrow>
            resolve_modulePath e b src = Inr (Join [modulePath e, src]) \<and>
            loadModule w e b stop =
              Returns (load_directory w e b src (Join [modulePath e, src]) stop)) \<and>
         Join [''/proj/modules/a'', ''../shared''] = ''/proj/modules/shared''"
proof -
  note r = resolve_modulePath_no_metadata [OF assms(4), of src]
  note l = loadModule_Returns [OF assms(1,2), of w e stop]
  have a: "\<not> HasPrefix src ''./'' \<and> \<not> HasPrefix src ''../'' \<longrightarrow>
            loadModule w e b stop =
              Returns (Inl (Load_error (ModuleLoadError src Missing_source_code)), [])"
    using assms(3) r l by (simp add: load_source_def)
  have b: "HasPrefix src ''./'' \<or> HasPrefix src ''../'' \<longrightarrow>
            resolve_modulePath e b src = Inr (Join [modulePath e, src]) \<and>
            loadModule w e b stop =
              Returns (load_directory w e b src (Join [modulePath e, src]) stop)"
    using assms(3) r l by (auto simp: load_source_def simp del: Join.simps)
  from a b example_shared show ?thesis by blast
qed

theorem loadModule_local_fallback_witness:
  "loadModule example_world example_evaluator (example_block ''s3a'' ''s3::bucket/path'') False =
     Returns (Inl (Load_error (ModuleLoadError ''s3::bucket/path'' Missing_source_code)), []) \<and>
   loadModule example_world example_evaluator (example_block ''shared'' ''../shared'') False =
     Returns
       (Inr \<lparr> Name = ''shared'', Path = ''/proj/modules/shared'',
              Definition = example_block ''shared'' ''../shared'',
              Modules = [NewHCLModule ''/proj'' ''/proj/modules/shared''
                           [New (HclBlock ''resource'') NewContext
                              (example_block ''shared'' ''../shared''),
                            New (HclBlock ''output'') NewContext
                              (example_block ''shared'' ''../shared'')]
                           [Ignore ''main-ignore'', Ignore ''outputs-ignore'']] \<rparr>,
        [Warning_HCL_error (ExtError ''syntax error'')])"
proof -
  have n1: "find (\<lambda>m. Key m = getModuleKeyName (moduleName example_evaluator)
                 (Label (example_block ''s3a'' ''s3::bucket/path'')))
             [\<lparr> Key = ''x'', Dir = ''vendor/x'' \<rparr>] = None"
    by (rule example_no_entry) (simp_all add: newline_def)
  have n2: "find (\<lambda>m. Key m = getModuleKeyName (moduleName example_evaluator)
                 (Label (example_block ''shared'' ''../shared'')))
             [\<lparr> Key = ''x'', Dir = ''vendor/x'' \<rparr>] = None"
    by (rule example_no_entry) (simp_all add: newline_def)
  have p: "modulePath example_evaluator = ''/proj/modules/a''"
          "projectRootPath example_evaluator = ''/proj''"
    by (simp_all add: example_evaluator_def)
  from loadModule_local_fallback
         [of "example_block ''s3a'' ''s3::bucket/path''" "''s3::bucket/path''"
             example_evaluator example_world False]
       loadModule_local_fallback
         [of "example_block ''shared'' ''../shared''" "''../shared''"
             example_evaluator example_world False]
       n1 n2 example_metadata
  show ?thesis
    by (simp add: example_label example_source example_shared example_shared_blocks
        load_directory_def HasPrefix_def p del: Join.simps)
qed



text \<open>
  C5. When the files of the directory can be listed: without \<open>stopOnHCLError\<close>,
  \<open>getModuleBlocks\<close> returns the blocks and ignores of every file that parses, in file
  order, and no error; files that fail to parse are only skipped (each with a warning),
  so a directory in which every file fails gives empty lists and no error. With
  \<open>stopOnHCLError\<close>, one file that fails to parse makes the call return an error with no
  blocks and no ignores.
\<close>

theorem getModuleBlocks_partial_failure:
  "(LoadDirectory w dir False = (files, None) \<longrightarrow>
      getModuleBlocks w b dir False =
        (blocks_of_files w b files, ignores_of_files w files, None,
         warnings_of_files w files)) \<and>
   (LoadDirectory w dir False = (files, None) \<and> (\<forall>f\<in>set files. \<not> parsed_ok w f) \<longrightarrow>
      (\<exists>out. getModuleBlocks w b dir False = ([], [], None, out))) \<and>
   (LoadDirectory w dir True = (files, None) \<and> (\<exists>f\<in>set files. \<not> parsed_ok w f) \<longrightarrow>
      (\<exists>x. getModuleBlocks w b dir True = ([], [], Some x, [])))"
proof (intro conjI impI)
  assume "LoadDirectory w dir False = (files, None)"
  then show "getModuleBlocks w b dir False =
        (blocks_of_files w b files, ignores_of_files w files, None,
         warnings_of_files w files)"
    by (simp add: getModuleBlocks_def getModuleBlocks_loop_tolerant)
next
  assume a: "LoadDirectory w dir False = (files, None) \<and> (\<forall>f\<in>set files. \<not> parsed_ok w f)"
  then have "filter (parsed_ok w) files = []" by (simp add: filter_empty_conv)
  then have "blocks_of_files w b files = []" and "ignores_of_files w files = []"
    by (simp_all add: blocks_of_files_def ignores_of_files_def)
  with a show "\<exists>out. getModuleBlocks w b dir False = ([], [], None, out)"
    by (simp add: getModuleBlocks_def getModuleBlocks_loop_tolerant)
next
  assume a: "LoadDirectory w dir True = (files, None) \<and> (\<exists>f\<in>set files. \<not> parsed_ok w f)"
  then have "\<exists>x. getModuleBlocks_loop w b True files [] [] [] = ([], [], Some x, [])"
    by (intro getModuleBlocks_loop_strict_fail) simp
  with a show "\<exists>x. getModuleBlocks w b dir True = ([], [], Some x, [])"
    by (simp add: getModuleBlocks_def)
qed

theorem getModuleBlocks_partial_failure_witness:
  "getModuleBlocks example_world (example_block ''shared'' ''../shared'')
      ''/proj/modules/shared'' False =
     ([New (HclBlock ''resource'') NewContext (example_block ''shared'' ''../shared''),
       New (HclBlock ''output'') NewContext (example_block ''shared'' ''../shared'')],
      [Ignore ''main-ignore'', Ignore ''outputs-ignore''], None,
      [Warning_HCL_error (ExtError ''syntax error'')]) \<and>
   (\<exists>x. getModuleBlocks example_world (example_block ''shared'' ''../shared'')
      ''/proj/modules/shared'' True = ([], [], Some x, []))"
proof -
  have bad: "\<exists>f\<in>set [File ''main.tf'', File ''broken.tf'', File ''outputs.tf''].
      \<not> parsed_ok example_world f"
    using example_broken by simp
  from getModuleBlocks_partial_failure
         [of example_world "''/proj/modules/shared''"
             "[File ''main.tf'', File ''broken.tf'', File ''outputs.tf'']"
             "example_block ''shared'' ''../shared''"]
       example_files bad
  show ?thesis
    by (simp add: blocks_of_files_def ignores_of_files_def warnings_of_files_def
        parsed_ok_def example_world_def example_parser_def map_filter_simps)
qed

text \<open>
  C6 (as amended). Without \<open>stopOnHCLError\<close>, the ignores \<open>getModuleBlocks\<close> returns are
  those of the files whose parse returned no error, in file order. What the parser
  returned next to an error, blocks or ignores, is never read: the call returns the
  same with a parser that returns nothing but the error for such a file.
\<close>

theorem getModuleBlocks_ignores_of_parsed_files:
  "(LoadDirectory w dir False = (files, None) \<longrightarrow>
      fst (snd (getModuleBlocks w b dir False)) = ignores_of_files w files) \<and>
   getModuleBlocks (discard_partial_results w) b dir stop = getModuleBlocks w b dir stop"
proof
  show "LoadDirectory w dir False = (files, None) \<longrightarrow>
      fst (snd (getModuleBlocks w b dir False)) = ignores_of_files w files"
    by (simp add: getModuleBlocks_def getModuleBlocks_loop_tolerant)
next
  have "LoadDirectory (discard_partial_results w) = LoadDirectory w"
    by (simp add: discard_partial_results_def)
  then show "getModuleBlocks (discard_partial_results w) b dir stop = getModuleBlocks w b dir stop"
    by (simp add: getModuleBlocks_def getModuleBlocks_loop_discard split: prod.splits option.splits)
qed

theorem getModuleBlocks_ignores_of_parsed_files_witness:
  "LoadDirectory example_world ''/proj/modules/shared'' False =
     ([File ''main.tf'', File ''broken.tf'', File ''outputs.tf''], None) \<and>
   fst (snd (getModuleBlocks example_world (example_block ''shared'' ''../shared'')
       ''/proj/modules/shared'' False)) = [Ignore ''main-ignore'', Ignore ''outputs-ignore'']"
  using getModuleBlocks_ignores_of_parsed_files
         [of example_world "''/proj/modules/shared''"
             "[File ''main.tf'', File ''broken.tf'', File ''outputs.tf'']"
             "example_block ''shared'' ''../shared''"]
       example_files [of False]
  by (simp add: ignores_of_files_def parsed_ok_def example_world_def example_parser_def)

text \<open>
  C6 as first stated (the ignores of a file are collected even when its parse returned
  an error) fails: the loop goes to the next file before it reaches the line that
  appends the ignores.
\<close>

theorem getModuleBlocks_partial_ignores_counterexample:
  "\<not> (\<forall>w b dir files f.
        LoadDirectory w dir False = (files, None) \<and> f \<in> set files \<longrightarrow>
        set (fst (snd (LoadBlocksFromFile w f)))
          \<subseteq> set (fst (snd (getModuleBlocks w b dir False))))"
proof
  assume "\<forall>w b dir files f.
        LoadDirectory w dir False = (files, None) \<and> f \<in> set files \<longrightarrow>
        set (fst (snd (LoadBlocksFromFile w f)))
          \<subseteq> set (fst (snd (getModuleBlocks w b dir False)))"
  then have "LoadDirectory example_world ''/proj/modules/shared'' False =
        ([File ''main.tf'', File ''broken.tf'', File ''outputs.tf''], None) \<and>
        File ''broken.tf'' \<in> set [File ''main.tf'', File ''broken.tf'', File ''outputs.tf''] \<longrightarrow>
        set (fst (snd (LoadBlocksFromFile example_world (File ''broken.tf''))))
          \<subseteq> set (fst (snd (getModuleBlocks example_world (example_block ''shared'' ''../shared'')
                ''/proj/modules/shared'' False)))"
    by blast
  then show False
    by (simp add: getModuleBlocks_def example_world_def example_parser_def example_directory_def)
qed

text \<open>
  C7 (as amended). For every module definition \<open>loadModule\<close> returns: \<open>Name\<close> is the
  label of the block, \<open>Definition\<close> is the block, \<open>Modules\<close> is the one module made of
  the project root, the path and the blocks and ignores \<open>getModuleBlocks\<close> returned for
  the path; the directory listing of \<open>Path\<close> succeeded; \<open>Path\<close> is clean (cleaning it
  again changes nothing); and \<open>Path\<close> is absolute when the project root path and the
  module path of the evaluator are absolute.
\<close>

theorem loadModule_definition:
  assumes "loadModule w e b stop = Returns (Inr d, written)"
  shows "Name d = Label b \<and> Definition d = b \<and>
         (\<exists>bs igs out. getModuleBlocks w b (Path d) stop = (bs, igs, None, out) \<and>
            Modules d = [NewHCLModule (projectRootPath e) (Path d) bs igs]) \<and>
         snd (LoadDirectory w (Path d) stop) = None \<and>
         Clean (Path d) = Path d \<and>
         (IsAbs (projectRootPath e) \<and> IsAbs (modulePath e) \<longrightarrow> IsAbs (Path d))"
proof -
  from assms have l: "Label b \<noteq> []" by (auto simp: loadModule_def split: if_splits)
  from loadModule_cases [OF assms l] obtain src
    where ls: "load_source w e b src stop = (Inr d, written)" by metis
  then have s: "src \<noteq> []" by (auto simp: load_source_def split: if_splits)
  from ls s obtain dir where r: "resolve_modulePath e b src = Inr dir"
    and ld: "load_directory w e b src dir stop = (Inr d, written)"
    by (cases "resolve_modulePath e b src") (auto simp: load_source_def)
  obtain bs igs x out where g: "getModuleBlocks w b dir stop = (bs, igs, x, out)"
    by (cases "getModuleBlocks w b dir stop") auto
  from ld g have x: "x = None"
    and d: "d = \<lparr> Name = Label b, Path = dir, Definition = b,
                  Modules = [NewHCLModule (projectRootPath e) dir bs igs] \<rparr>"
    by (cases x; simp add: load_directory_def)+
  from d have pd: "Path d = dir" by simp
  have dirs: "snd (LoadDirectory w dir stop) = None"
    using g x by (auto intro: getModuleBlocks_success_directory)
  have jc: "\<exists>p. Join [modulePath e, src] = Clean p"
    using s by (intro Join_Clean) simp
  from resolve_modulePath_cases [OF r s] jc
  have "\<exists>p. dir = Clean p" by metis
  then have cl: "Clean dir = dir" using Clean_idempotent by auto
  from resolve_modulePath_cases [OF r s]
  have ab: "IsAbs (projectRootPath e) \<and> IsAbs (modulePath e) \<longrightarrow> IsAbs dir"
    using Join_IsAbs Clean_IsAbs by metis
  from d g x dirs cl ab pd show ?thesis by auto
qed

theorem loadModule_definition_witness:
  "loadModule example_world example_evaluator (example_block ''shared'' ''../shared'') False =
     Returns
       (Inr \<lparr> Name = ''shared'', Path = ''/proj/modules/shared'',
              Definition = example_block ''shared'' ''../shared'',
              Modules = [NewHCLModule ''/proj'' ''/proj/modules/shared''
                           [New (HclBlock ''resource'') NewContext
                              (example_block ''shared'' ''../shared''),
                            New (HclBlock ''output'') NewContext
                              (example_block ''shared'' ''../shared'')]
                           [Ignore ''main-ignore'', Ignore ''outputs-ignore'']] \<rparr>,
        [Warning_HCL_error (ExtError ''syntax error'')]) \<and>
   IsAbs (projectRootPath example_evaluator) \<and> IsAbs (modulePath example_evaluator) \<and>
   IsAbs ''/proj/modules/shared'' \<and>
   Clean ''/proj/modules/shared'' = ''/proj/modules/shared'' \<and>
   snd (LoadDirectory example_world ''/proj/modules/shared'' False) = None"
proof -
  note h = example_shared_loadModule
  from loadModule_definition [OF h] h show ?thesis
    by (simp add: example_evaluator_def IsAbs_def HasPrefix_def Separator_def)
qed

text \<open>
  C7 as first stated (the path of every returned module definition is absolute) fails
  for an evaluator whose module path is relative: nothing in \<open>loadModule\<close> makes a
  path absolute.
\<close>

theorem loadModule_relative_path_counterexample:
  "\<not> (\<forall>w e b stop d written.
        loadModule w e b stop = Returns (Inr d, written) \<longrightarrow> IsAbs (Path d))"
proof
  let ?e = "example_evaluator \<lparr> modulePath := ''modules'' \<rparr>"
  let ?b = "example_block ''child'' ''./child''"
  let ?d = "\<lparr> Name = ''child'', Path = ''modules/child'', Definition = ?b,
             Modules = [NewHCLModule ''/proj'' ''modules/child''
                          [New (HclBlock ''resource'') NewContext ?b]
                          [Ignore ''main-ignore'']] \<rparr>"
  assume a: "\<forall>w e b stop d written.
        loadModule w e b stop = Returns (Inr d, written) \<longrightarrow> IsAbs (Path d)"
  have g: "getModuleBlocks example_world ?b ''modules/child'' False =
             ([New (HclBlock ''resource'') NewContext ?b], [Ignore ''main-ignore''], None, [])"
    by (simp add: getModuleBlocks_def example_world_def example_directory_def example_parser_def)
  have "resolve_modulePath ?e ?b ''./child'' = Inr ''modules/child''"
    using example_child
    by (simp add: resolve_modulePath_def example_evaluator_def example_label
        getModuleKeyName_def HasPrefix_def Separator_def del: Join.simps)
  then have "loadModule example_world ?e ?b False = Returns (Inr ?d, [])"
    using g
    by (simp add: loadModule_def load_source_def load_directory_def example_label
        example_source example_evaluator_def)
  with a have "IsAbs (Path ?d)" by blast
  then show False by (simp add: IsAbs_def HasPrefix_def Separator_def)
qed

text \<open>
  C8. \<open>loadModules\<close> drops the module blocks whose label is empty: the loop returns the
  same definitions, the same \<open>loadErrors\<close> and the same standard error as on the list
  without them; a block with an empty label leaves the three variables of the loop
  unchanged (\<open>loadModule\<close> is not called for it); and no returned module definition
  comes from a block with an empty label.
\<close>

theorem loadModules_skips_empty_label:
  "loadModules_loop w e stop bs defs les out =
     loadModules_loop w e stop (filter (\<lambda>b. Label b \<noteq> []) bs) defs les out \<and>
   (Label b = [] \<longrightarrow>
      loadModules_loop w e stop (b # bs) defs les out =
        loadModules_loop w e stop bs defs les out) \<and>
   (loadModules w e stop = Returns (returned, written) \<longrightarrow>
      (\<forall>d\<in>set returned. Label (Definition d) \<noteq> [] \<and> Name d \<noteq> []))"
proof (intro conjI)
  show "loadModules_loop w e stop bs defs les out =
     loadModules_loop w e stop (filter (\<lambda>b. Label b \<noteq> []) bs) defs les out"
  proof (induction bs arbitrary: defs les out)
    case Nil
    then show ?case by simp
  next
    case (Cons b bs)
    show ?case
    proof (cases "Label b = []")
      case True
      then show ?thesis using Cons.IH by simp
    next
      case False
      show ?thesis
      proof (cases "loadModule w e b stop")
        case Panics
        then show ?thesis using False by simp
      next
        case (Returns x)
        obtain r wr where x: "x = (r, wr)" by (cases x)
        show ?thesis
        proof (cases r)
          case (Inl er)
          then show ?thesis using False Returns x Cons.IH by (cases er) simp_all
        next
          case (Inr d)
          then show ?thesis using False Returns x Cons.IH by simp
        qed
      qed
    qed
  qed
next
  show "Label b = [] \<longrightarrow>
      loadModules_loop w e stop (b # bs) defs les out =
        loadModules_loop w e stop bs defs les out"
    by simp
next
  show "loadModules w e stop = Returns (returned, written) \<longrightarrow>
      (\<forall>d\<in>set returned. Label (Definition d) \<noteq> [] \<and> Name d \<noteq> [])"
  proof (intro impI ballI)
    fix d
    assume r: "loadModules w e stop = Returns (returned, written)" and d: "d \<in> set returned"
    from loadModules_Returns_cases [OF r] obtain les' out' where
      "loadModules_loop w e stop (expandBlocks w (OfType (blocks e) ''module'')) [] [] []
         = Returns (returned, les', out')" by metis
    from loadModules_loop_Returns [OF this] d
    have "d \<in> set (loaded w e stop (expandBlocks w (OfType (blocks e) ''module'')))" by simp
    then obtain b' wr where "loadModule w e b' stop = Returns (Inr d, wr)"
      by (auto simp: loaded_set)
    from loadModule_Inr [OF this] show "Label (Definition d) \<noteq> [] \<and> Name d \<noteq> []" by simp
  qed
qed

theorem loadModules_skips_empty_label_witness:
  "Label (example_block [] ''../shared'') = [] \<and>
   loadModules_loop example_world example_evaluator False
     [example_block [] ''../shared'', example_block ''nosrc'' []] [] [] [] =
   loadModules_loop example_world example_evaluator False
     [example_block ''nosrc'' []] [] [] [] \<and>
   example_x_definition \<in> set [example_x_definition, example_shared_definition] \<and>
   Label (Definition example_x_definition) \<noteq> []"
  using loadModules_skips_empty_label
          [of example_world example_evaluator False "[example_block ''nosrc'' []]" "[]" "[]" "[]"
              "example_block [] ''../shared''"
              "[example_x_definition, example_shared_definition]"
              "[Warning_HCL_error (ExtError ''syntax error''),
                Warning_failed_to_load_module (Could_not_read_module_source ''main.tf:1''),
                Warning_terraform_init,
                Failed_module_source ''s3::bucket/path'']"]
        example_loadModules
  by (simp add: example_label del: loadModules_loop.simps)

text \<open>
  C9 does not hold of the code. The claim is that \<open>loadModules\<close> always returns and
  that no failure of one module block escapes the call. A module block with a label
  whose \<open>source\<close> attribute is of type string and null passes the type test of
  \<open>loadModule\<close>, \<open>AsString\<close> panics on it, and nothing recovers the panic: the call
  does not return, for either value of \<open>stopOnHCLError\<close>, although the blocks before and
  after that one load.
\<close>

theorem loadModules_null_source_panics:
  "loadModule example_world example_evaluator (example_block ''shared'' ''../shared'') False
     = Returns (Inr example_shared_definition, [Warning_HCL_error (ExtError ''syntax error'')]) \<and>
   loadModule example_world example_evaluator
       (example_block ''x'' ''git::https://example.com/x'') False
     = Returns (Inr example_x_definition, []) \<and>
   loadModules example_world
     (example_evaluator
        \<lparr> blocks := [example_block ''shared'' ''../shared'', example_null_block,
                     example_block ''x'' ''git::https://example.com/x''] \<rparr>) False = Panics \<and>
   loadModules example_world
     (example_evaluator
        \<lparr> blocks := [example_block ''shared'' ''../shared'', example_null_block,
                     example_block ''x'' ''git::https://example.com/x''] \<rparr>) True = Panics"
proof -
  let ?e = "example_evaluator
        \<lparr> blocks := [example_block ''shared'' ''../shared'', example_null_block,
                     example_block ''x'' ''git::https://example.com/x''] \<rparr>"
  have p: "panics_on example_null_block"
    by (simp add: panics_on_def example_null_block_def)
  have "example_null_block \<in> set (expandBlocks example_world (OfType (blocks ?e) ''module''))"
    unfolding example_null_expanded by simp
  with p have "\<exists>b\<in>set (expandBlocks example_world (OfType (blocks ?e) ''module'')). panics_on b"
    by blast
  then have "loadModules example_world ?e False = Panics"
    and "loadModules example_world ?e True = Panics"
    unfolding loadModules_Panics by simp_all
  moreover have "loadModule example_world example_evaluator
      (example_block ''shared'' ''../shared'') False
     = Returns (Inr example_shared_definition, [Warning_HCL_error (ExtError ''syntax error'')])"
    using example_shared_loadModule by (simp add: example_shared_definition_def)
  ultimately show ?thesis using example_x_loadModule by simp
qed

text \<open>
  C10. A module block with a label whose \<open>source\<close> attribute is the empty string fails
  in \<open>loadModule\<close> with the "could not read module source attribute" error, as does a
  block whose \<open>source\<close> is absent or not of type string; no standard error output
  comes from the resolver itself. The result does not depend on the evaluator, so
  neither the metadata nor the module path is consulted. In \<open>loadModules\<close> the failure
  only adds one warning: \<open>loadErrors\<close> and the module definitions stay as they were.
\<close>

theorem loadModule_empty_source:
  assumes "Label b \<noteq> []"
    and "\<forall>a\<in>set (Attributes b). fst a = ''source'' \<longrightarrow>
           (snd a = String_val [] \<or> \<not> is_String (snd a))"
  shows "loadModule w e b stop =
           Returns (Inl (Could_not_read_module_source (MetadataRange b)), []) \<and>
         loadModules_loop w e stop (b # rest) defs loadErrors out =
           loadModules_loop w e stop rest defs loadErrors
             (out @ [Warning_failed_to_load_module
                       (Could_not_read_module_source (MetadataRange b))])"
proof -
  have src: "source_loop (Attributes b) [] = Returns []"
    using assms(2) by (rule source_loop_empty)
  have lm: "loadModule w e b stop =
              Returns (Inl (Could_not_read_module_source (MetadataRange b)), [])"
    using loadModule_Returns [OF assms(1) src, of w e stop] by (simp add: load_source_def)
  then show ?thesis using assms(1) by simp
qed

theorem loadModule_empty_source_witness:
  "loadModule example_world example_evaluator (example_block ''nosrc'' []) False =
     Returns (Inl (Could_not_read_module_source ''main.tf:1''), []) \<and>
   loadModules_loop example_world example_evaluator False [example_block ''nosrc'' []] [] [] [] =
     Returns
       ([], [], [Warning_failed_to_load_module (Could_not_read_module_source ''main.tf:1'')])"
  using loadModule_empty_source
          [of "example_block ''nosrc'' []" example_world example_evaluator False "[]" "[]" "[]" "[]"]
  by (simp add: example_block_def)

end
